theory Spec2Isabelle
  imports Complex_Main
begin

section \<open>The MIDI player of \<open>midi_classifier.py\<close>\<close>

text \<open>
  The development embeds the class \<open>MIDIPlayer\<close> (lines 14 to 122 of
  \<open>src/midi_classifier.py\<close>). The library \<open>mido\<close> is not part of the repository: its
  messages, its files and its output port are modelled by the records below, with exactly
  the attributes the player reads.

  Python numbers are modelled as rationals, which every finite float is. Comparison
  (\<open>max\<close>, \<open>min\<close>, \<open>>=\<close>) is exact on them. The addition of \<open>current_position += msg.time\<close>
  rounds, so it is not the addition of the rationals: it is the parameter \<open>fadd\<close> of the
  thread below, and nothing is assumed of it except where a theorem says so. \<open>inf\<close> and
  \<open>nan\<close> are not modelled. Wall-clock time is not modelled either: \<open>time.sleep\<close> only
  shows through the exception it raises on a negative argument, and of that argument,
  \<open>msg.time * (1/self.tempo)\<close>, only the sign is used, which is taken from the exact product
  (the rounded product has the same sign unless it underflows to zero).
\<close>

subsection \<open>Exceptions\<close>

datatype error =
    PortError            \<comment> \<open>whatever \<open>port.send\<close> raises (closed port, device gone)\<close>
  | ValueError           \<comment> \<open>\<open>time.sleep\<close> of a negative length\<close>
  | ZeroDivisionError    \<comment> \<open>\<open>1/self.tempo\<close> with a zero tempo\<close>
  | TypeError            \<comment> \<open>\<open>current_position >= None\<close>\<close>
  | AttributeError       \<comment> \<open>\<open>None.play\<close>\<close>
  | LoadError            \<comment> \<open>\<open>Exception("Failed to load MIDI file: ...")\<close>\<close>

subsection \<open>Messages, files and the output port\<close>

record message =
  type :: string
  time :: rat
  channel :: nat
  note_number :: nat
  velocity :: nat

text \<open>\<open>mido.Message('note_off', note=note, channel=channel)\<close>: the other attributes take
  the defaults of \<open>mido\<close> (velocity 64, time 0).\<close>

definition Message_note_off :: "nat \<Rightarrow> nat \<Rightarrow> message" where
  "Message_note_off n c =
     \<lparr>type = ''note_off'', time = 0, channel = c, note_number = n, velocity = 64\<rparr>"

text \<open>
  A \<open>mido.MidiFile\<close>: \<open>tracks\<close> is the attribute of that name (the delta times of its
  messages are as stored in the file: integers, in ticks), and \<open>play_messages\<close> is the
  sequence that the generator \<open>play(meta_messages=True)\<close> yields (the merged tracks, delta
  times in seconds). How the second is computed from the first is the library's business,
  so both are given.
\<close>

record midi_file =
  tracks :: "message list list"
  play_messages :: "message list"

text \<open>
  The output port. \<open>sent\<close> lists the messages delivered so far, oldest first, \<open>calls\<close>
  counts the calls of \<open>send\<close>, and \<open>raises k\<close> tells whether call number \<open>k\<close> raises:
  the device may fail at any moment and come back.
\<close>

record port =
  sent :: "message list"
  calls :: nat
  raises :: "nat \<Rightarrow> bool"

definition send :: "port \<Rightarrow> message \<Rightarrow> port \<times> error option" where
  "send prt msg =
     (if raises prt (calls prt)
      then (prt\<lparr>calls := Suc (calls prt)\<rparr>, Some PortError)
      else (prt\<lparr>calls := Suc (calls prt), sent := sent prt @ [msg]\<rparr>, None))"

subsection \<open>The player\<close>

text \<open>
  The attributes of \<open>MIDIPlayer\<close>. \<open>play_queue\<close> is never used and \<open>play_thread\<close> only
  holds the thread handle; both are left out. \<open>__init__\<close> either binds a port or leaves the
  process, so a constructed player always has one and the guard
  \<open>hasattr(self, 'port') and self.port\<close> of \<open>stop\<close> holds.

  A method returns the player as it has left it together with the exception it raises, if
  any: what a Python method has assigned before it raises stays assigned.
\<close>

record player =
  current_midi :: "midi_file option"
  is_playing :: bool
  is_looping :: bool
  loop_start :: rat
  loop_end :: "rat option"
  tempo :: rat
  current_position :: rat
  port :: port

definition init :: "port \<Rightarrow> player" where
  "init prt =
     \<lparr>current_midi = None, is_playing = False, is_looping = False, loop_start = 0,
      loop_end = None, tempo = 1, current_position = 0, port = prt\<rparr>"

subsubsection \<open>\<open>stop\<close>\<close>

definition all_notes_off :: "message list" where
  "all_notes_off =
     concat (map (\<lambda>channel. map (\<lambda>note. Message_note_off note channel) [0..<128]) [0..<16])"

fun send_all :: "port \<Rightarrow> message list \<Rightarrow> port \<times> error option" where
  "send_all prt [] = (prt, None)"
| "send_all prt (msg # msgs) =
     (case send prt msg of
        (prt', Some e) \<Rightarrow> (prt', Some e)
      | (prt', None) \<Rightarrow> send_all prt' msgs)"

definition stop :: "player \<Rightarrow> player \<times> error option" where
  "stop p =
     (let p1 = p\<lparr>is_playing := False\<rparr>;
          (prt, e) = send_all (port p1) all_notes_off
      in (p1\<lparr>port := prt\<rparr>, e))"

subsubsection \<open>\<open>set_tempo\<close>, \<open>set_loop_points\<close>, \<open>toggle_loop\<close>\<close>

definition set_tempo :: "player \<Rightarrow> rat \<Rightarrow> player" where
  "set_tempo p t = p\<lparr>tempo := max (1 / 4) (min 2 t)\<rparr>"

definition set_loop_points :: "player \<Rightarrow> rat \<Rightarrow> rat \<Rightarrow> player" where
  "set_loop_points p start end' = p\<lparr>loop_start := start, loop_end := Some end'\<rparr>"

definition toggle_loop :: "player \<Rightarrow> player" where
  "toggle_loop p = p\<lparr>is_looping := \<not> is_looping p\<rparr>"

subsubsection \<open>\<open>load_midi\<close>\<close>

text \<open>
  \<open>mido.MidiFile(filepath)\<close> reads the file system, which is the parameter \<open>files\<close>: a
  path that cannot be decoded has no file. \<open>stop\<close> is called before the \<open>try\<close>, so what it
  raises leaves \<open>load_midi\<close> as it is; what the decoder raises is raised again as the
  exception of \<open>load_midi\<close>, before anything is assigned.
\<close>

definition load_midi :: "(string \<Rightarrow> midi_file option) \<Rightarrow> player \<Rightarrow> string \<Rightarrow> player \<times> error option" where
  "load_midi files p filepath =
     (case stop p of
        (p1, Some e) \<Rightarrow> (p1, Some e)
      | (p1, None) \<Rightarrow>
          (case files filepath of
             None \<Rightarrow> (p1, Some LoadError)
           | Some mf \<Rightarrow>
               (p1\<lparr>current_midi := Some mf,
                   loop_end := Some (sum_list (map time (concat (tracks mf))))\<rparr>, None)))"

subsubsection \<open>\<open>play\<close>\<close>

text \<open>
  \<open>play\<close> returns at once; the thread it starts runs \<open>play_thread\<close> below on the player
  it is left with. The boolean of the result tells whether a thread has been started.
\<close>

definition play :: "player \<Rightarrow> rat option \<Rightarrow> (player \<times> bool) \<times> error option" where
  "play p start_pos =
     (if current_midi p = None then ((p, False), None)
      else
        (case (if is_playing p then stop p else (p, None)) of
           (p1, Some e) \<Rightarrow> ((p1, False), Some e)
         | (p1, None) \<Rightarrow>
             (let p2 = p1\<lparr>is_playing := True\<rparr>;
                  p3 = (case start_pos of
                          None \<Rightarrow> p2
                        | Some pos \<Rightarrow> p2\<lparr>current_position := pos\<rparr>)
              in ((p3, True), None))))"

subsubsection \<open>The scheduling thread\<close>

text \<open>
  The thread is modelled running alone: the flags it reads are those of the player it is
  given, and the tests of \<open>is_playing\<close> are kept where the code has them. A message of
  \<open>mido\<close> always has the attributes \<open>time\<close> and \<open>type\<close>, so the two \<open>hasattr\<close> tests
  are true. The first parameter, \<open>fadd\<close>, is the addition of Python floats (binary64,
  rounded to nearest when the code runs). What one round of the \<open>for\<close> loop ends with:
\<close>

datatype outcome =
    Continue        \<comment> \<open>go on with the next message\<close>
  | Broke           \<comment> \<open>\<open>break\<close>\<close>
  | Raised error    \<comment> \<open>an exception leaves the loop\<close>

definition for_body :: "(rat \<Rightarrow> rat \<Rightarrow> rat) \<Rightarrow> player \<Rightarrow> message \<Rightarrow> player \<times> outcome" where
  "for_body fadd p msg =
     (if \<not> is_playing p then (p, Broke)
      else if tempo p = 0 then (p, Raised ZeroDivisionError)
      else if time msg * (1 / tempo p) < 0 then (p, Raised ValueError)
      else
        (case (if type msg \<in> set [''note_on'', ''note_off'']
               then send (port p) msg else (port p, None)) of
           (prt, Some e) \<Rightarrow> (p\<lparr>port := prt\<rparr>, Raised e)
         | (prt, None) \<Rightarrow>
             (let p1 = p\<lparr>port := prt, current_position := fadd (current_position p) (time msg)\<rparr>
              in if is_looping p1
                 then (case loop_end p1 of
                         None \<Rightarrow> (p1, Raised TypeError)
                       | Some le \<Rightarrow>
                           if current_position p1 \<ge> le
                           then (p1\<lparr>current_position := loop_start p1\<rparr>, Broke)
                           else (p1, Continue))
                 else (p1, Continue))))"

fun for_loop :: "(rat \<Rightarrow> rat \<Rightarrow> rat) \<Rightarrow> player \<Rightarrow> message list \<Rightarrow> player \<times> outcome" where
  "for_loop fadd p [] = (p, Continue)"
| "for_loop fadd p (msg # msgs) =
     (case for_body fadd p msg of
        (p', Continue) \<Rightarrow> for_loop fadd p' msgs
      | (p', Broke) \<Rightarrow> (p', Broke)
      | (p', Raised e) \<Rightarrow> (p', Raised e))"

text \<open>
  The \<open>while\<close> loop may run for ever, so it takes fuel: the number of passes of the \<open>for\<close>
  loop it may start. \<open>None\<close> says that the fuel did not suffice.
\<close>

fun while_loop :: "(rat \<Rightarrow> rat \<Rightarrow> rat) \<Rightarrow> nat \<Rightarrow> player \<Rightarrow> (player \<times> error option) option" where
  "while_loop fadd fuel p =
     (if \<not> is_playing p then Some (p, None)
      else
        (case fuel of
           0 \<Rightarrow> None
         | Suc fuel' \<Rightarrow>
             (case current_midi p of
                None \<Rightarrow> Some (p, Some AttributeError)
              | Some mf \<Rightarrow>
                  (case for_loop fadd p (play_messages mf) of
                     (p', Raised e) \<Rightarrow> Some (p', Some e)
                   | (p', _) \<Rightarrow>
                       if \<not> is_looping p' then Some (p', None)
                       else while_loop fadd fuel' p'))))"

text \<open>
  \<open>_play_thread\<close>: the \<open>except\<close> clause clears \<open>is_playing\<close>, the \<open>finally\<close> clause calls
  \<open>stop\<close>, and what \<open>stop\<close> raises there leaves the thread.
\<close>

definition play_thread :: "(rat \<Rightarrow> rat \<Rightarrow> rat) \<Rightarrow> nat \<Rightarrow> player \<Rightarrow> (player \<times> error option) option" where
  "play_thread fadd fuel p =
     (case while_loop fadd fuel p of
        None \<Rightarrow> None
      | Some (p1, None) \<Rightarrow> Some (stop p1)
      | Some (p1, Some e) \<Rightarrow> Some (stop (p1\<lparr>is_playing := False\<rparr>)))"

declare while_loop.simps [simp del]

subsubsection \<open>Notions used to state the properties\<close>

text \<open>The test \<open>msg.type in ['note_on', 'note_off']\<close> of the thread, as a predicate.\<close>

definition is_note_message :: "message \<Rightarrow> bool" where
  "is_note_message msg \<longleftrightarrow> type msg \<in> set [''note_on'', ''note_off'']"

text \<open>
  The player at the start of pass number \<open>k\<close> of the \<open>while\<close> loop (the first pass has
  number 0), if the loop gets there: the passes before must have ended without an
  exception, with \<open>is_looping\<close> and \<open>is_playing\<close> still set.
\<close>

fun nth_pass :: "(rat \<Rightarrow> rat \<Rightarrow> rat) \<Rightarrow> nat \<Rightarrow> player \<Rightarrow> player option" where
  "nth_pass fadd 0 p = (if is_playing p then Some p else None)"
| "nth_pass fadd (Suc k) p =
     (if \<not> is_playing p then None
      else
        (case current_midi p of
           None \<Rightarrow> None
         | Some mf \<Rightarrow>
             (case for_loop fadd p (play_messages mf) of
                (p', Raised e) \<Rightarrow> None
              | (p', _) \<Rightarrow> if \<not> is_looping p' then None else nth_pass fadd k p')))"

text \<open>
  The messages a pass handles when nothing raises, from the position \<open>pos\<close>: all of them
  when the player does not loop, and otherwise those up to and including the first one that
  takes the position to \<open>loop_end\<close>.
\<close>

fun handled :: "(rat \<Rightarrow> rat \<Rightarrow> rat) \<Rightarrow> bool \<Rightarrow> rat option \<Rightarrow> rat \<Rightarrow> message list \<Rightarrow> message list" where
  "handled fadd looping le pos [] = []"
| "handled fadd looping le pos (msg # msgs) =
     msg # (if looping \<and> (case le of None \<Rightarrow> False | Some e \<Rightarrow> e \<le> fadd pos (time msg))
            then []
            else handled fadd looping le (fadd pos (time msg)) msgs)"

subsection \<open>A small performance\<close>

text \<open>
  Three messages: a note switched on after 0.125 s and off after another 0.25 s, then the
  end of the track. The track stores the delta times in ticks. All numbers of the examples
  are binary fractions of a few bits, on which the addition of floats is exact: the examples
  run with the addition of the rationals for \<open>fadd\<close> and are what the code computes.
\<close>

definition example_on :: message where
  "example_on = \<lparr>type = ''note_on'', time = 1 / 8, channel = 0, note_number = 60, velocity = 64\<rparr>"

definition example_off :: message where
  "example_off = \<lparr>type = ''note_off'', time = 1 / 4, channel = 0, note_number = 60, velocity = 64\<rparr>"

definition example_end :: message where
  "example_end = \<lparr>type = ''end_of_track'', time = 0, channel = 0, note_number = 0, velocity = 0\<rparr>"

definition example_song :: midi_file where
  "example_song =
     \<lparr>tracks = [[example_on\<lparr>time := 96\<rparr>, example_off\<lparr>time := 192\<rparr>, example_end]],
      play_messages = [example_on, example_off, example_end]\<rparr>"

definition example_files :: "string \<Rightarrow> midi_file option" where
  "example_files filepath = (if filepath = ''song.mid'' then Some example_song else None)"

text \<open>A port that never raises, one that always does, and one that raises from call
  number \<open>n\<close> on (the device is unplugged then).\<close>

definition good_port :: port where
  "good_port = \<lparr>sent = [], calls = 0, raises = (\<lambda>k. False)\<rparr>"

definition dead_port :: port where
  "dead_port = \<lparr>sent = [], calls = 0, raises = (\<lambda>k. True)\<rparr>"

definition unplugged_at :: "nat \<Rightarrow> port" where
  "unplugged_at n = \<lparr>sent = [], calls = 0, raises = (\<lambda>k. n \<le> k)\<rparr>"

text \<open>A port that raises at call number \<open>n\<close> only.\<close>

definition hiccup_at :: "nat \<Rightarrow> port" where
  "hiccup_at n = \<lparr>sent = [], calls = 0, raises = (\<lambda>k. k = n)\<rparr>"

text \<open>
  The player after \<open>load_midi('song.mid')\<close>, then after \<open>play()\<close>, then once the thread
  has run with fuel for one pass.
\<close>

definition loaded_example :: "port \<Rightarrow> player" where
  "loaded_example prt = fst (load_midi example_files (init prt) ''song.mid'')"

definition playing_example :: "port \<Rightarrow> player" where
  "playing_example prt = fst (fst (play (loaded_example prt) None))"

definition played_example :: "port \<Rightarrow> player" where
  "played_example prt =
     (case play_thread (+) 1 (playing_example prt) of
        Some (p, e) \<Rightarrow> p
      | None \<Rightarrow> playing_example prt)"

text \<open>
  The example playing with a loop region: after \<open>play()\<close>,
  \<open>set_loop_points(0.15625, 0.3125)\<close> and \<open>toggle_loop()\<close>. The region starts after the
  first message is due (0.125 s) and ends before the performance does (0.375 s).
\<close>

definition looping_example :: "port \<Rightarrow> player" where
  "looping_example prt = toggle_loop (set_loop_points (playing_example prt) (5 / 32) (5 / 16))"

section \<open>Properties\<close>

subsection \<open>The sweep of \<open>stop\<close>\<close>

lemma send_all_delivers:
  "(\<forall>k<length msgs. \<not> raises prt (calls prt + k)) \<Longrightarrow>
   send_all prt msgs = (prt\<lparr>calls := calls prt + length msgs, sent := sent prt @ msgs\<rparr>, None)"
proof (induction msgs arbitrary: prt)
  case Nil
  then show ?case by simp
next
  case (Cons m ms)
  from Cons.prems have first: "\<not> raises prt (calls prt)" by fastforce
  let ?prt = "prt\<lparr>calls := Suc (calls prt), sent := sent prt @ [m]\<rparr>"
  have "\<forall>k<length ms. \<not> raises ?prt (calls ?prt + k)"
    using Cons.prems by fastforce
  then have "send_all ?prt ms = (?prt\<lparr>calls := calls ?prt + length ms, sent := sent ?prt @ ms\<rparr>, None)"
    by (rule Cons.IH)
  with first show ?case by (simp add: send_def)
qed

lemma send_all_aborts:
  "raises prt (calls prt) \<Longrightarrow>
   send_all prt (m # ms) = (prt\<lparr>calls := Suc (calls prt)\<rparr>, Some PortError)"
  by (simp add: send_def)

lemma length_all_notes_off: "length all_notes_off = 2048"
  by (simp add: all_notes_off_def length_concat comp_def sum_list_triv)

lemma Message_note_off_inj [simp]:
  "Message_note_off n c = Message_note_off n' c' \<longleftrightarrow> n = n' \<and> c = c'"
  by (auto simp: Message_note_off_def)

lemma in_all_notes_off:
  "msg \<in> set all_notes_off \<longleftrightarrow> (\<exists>c<16. \<exists>n<128. msg = Message_note_off n c)"
proof
  assume "msg \<in> set all_notes_off"
  then show "\<exists>c<16. \<exists>n<128. msg = Message_note_off n c"
    by (auto simp: all_notes_off_def)
next
  assume "\<exists>c<16. \<exists>n<128. msg = Message_note_off n c"
  then obtain c n where "c < 16" "n < 128" "msg = Message_note_off n c" by blast
  then show "msg \<in> set all_notes_off"
    by (auto simp: all_notes_off_def intro!: bexI[of _ c] image_eqI[of _ _ n])
qed


lemma all_notes_off_Cons: "all_notes_off = Message_note_off 0 0 # tl all_notes_off"
proof -
  have "all_notes_off \<noteq> []" using length_all_notes_off by auto
  moreover have "hd all_notes_off = Message_note_off 0 0"
    by (simp add: all_notes_off_def upt_rec[of 0] hd_concat)
  ultimately show ?thesis by (metis list.collapse)
qed

lemma raises_send_all [simp]: "raises (fst (send_all prt msgs)) = raises prt"
  by (induction msgs arbitrary: prt) (auto simp: send_def)

lemma stop_eq:
  "stop p = (p\<lparr>is_playing := False, port := fst (send_all (port p) all_notes_off)\<rparr>,
             snd (send_all (port p) all_notes_off))"
  by (simp add: stop_def split: prod.split)

lemma stop_delivers:
  assumes "\<forall>k<2048. \<not> raises (port p) (calls (port p) + k)"
  shows "stop p = (p\<lparr>is_playing := False,
                     port := (port p)\<lparr>calls := calls (port p) + 2048,
                                       sent := sent (port p) @ all_notes_off\<rparr>\<rparr>, None)"
  using assms by (simp add: stop_eq send_all_delivers length_all_notes_off)

lemma stop_aborts:
  assumes "raises (port p) (calls (port p))"
  shows "stop p = (p\<lparr>is_playing := False, port := (port p)\<lparr>calls := Suc (calls (port p))\<rparr>\<rparr>,
                   Some PortError)"
proof -
  have "send_all (port p) all_notes_off = ((port p)\<lparr>calls := Suc (calls (port p))\<rparr>, Some PortError)"
    using assms by (subst all_notes_off_Cons) (rule send_all_aborts)
  then show ?thesis by (simp add: stop_eq)
qed

lemma send_all_aborts_at:
  assumes "k < length msgs" "\<forall>j<k. \<not> raises prt (calls prt + j)" "raises prt (calls prt + k)"
  shows "send_all prt msgs =
     (prt\<lparr>calls := calls prt + Suc k, sent := sent prt @ take k msgs\<rparr>, Some PortError)"
  using assms
proof (induction msgs arbitrary: prt k)
  case Nil
  then show ?case by simp
next
  case (Cons m ms)
  show ?case
  proof (cases k)
    case 0
    with Cons.prems(3) show ?thesis by (simp add: send_def)
  next
    case (Suc k')
    with Cons.prems(2) have first: "\<not> raises prt (calls prt)" by fastforce
    let ?prt = "prt\<lparr>calls := Suc (calls prt), sent := sent prt @ [m]\<rparr>"
    have "k' < length ms" using Cons.prems(1) Suc by simp
    moreover have "\<forall>j<k'. \<not> raises ?prt (calls ?prt + j)"
      using Cons.prems(2) Suc by fastforce
    moreover have "raises ?prt (calls ?prt + k')"
      using Cons.prems(3) Suc by simp
    ultimately have "send_all ?prt ms =
        (?prt\<lparr>calls := calls ?prt + Suc k', sent := sent ?prt @ take k' ms\<rparr>, Some PortError)"
      by (rule Cons.IH)
    with first Suc show ?thesis by (simp add: send_def)
  qed
qed

lemma stop_aborts_at:
  assumes "k < 2048" "\<forall>j<k. \<not> raises (port p) (calls (port p) + j)"
    and "raises (port p) (calls (port p) + k)"
  shows "stop p = (p\<lparr>is_playing := False,
                     port := (port p)\<lparr>calls := calls (port p) + Suc k,
                                       sent := sent (port p) @ take k all_notes_off\<rparr>\<rparr>,
                   Some PortError)"
  using assms by (simp add: stop_eq send_all_aborts_at length_all_notes_off)

lemma first_notes_off:
  "take 3 all_notes_off = [Message_note_off 0 0, Message_note_off 1 0, Message_note_off 2 0]"
  by (simp add: all_notes_off_def upt_rec [of 0] upt_rec [of "Suc 0"] upt_rec [of "Suc (Suc 0)"]
        upt_rec [of 1] upt_rec [of 2])

text \<open>
  C1, as stated, fails where the port raises: \<open>stop\<close> has no handler around \<open>send\<close>,
  so the first call that raises ends the sweep. On a port that always raises, one call is
  made and no note-off is delivered.
\<close>

theorem stop_sweep_aborted_by_dead_port:
  "snd (stop (init dead_port)) = Some PortError
   \<and> sent (port (fst (stop (init dead_port)))) = []
   \<and> calls (port (fst (stop (init dead_port)))) = 1"
proof -
  have "raises (port (init dead_port)) (calls (port (init dead_port)))"
    by (simp add: init_def dead_port_def)
  then show ?thesis
    by (simp add: stop_aborts) (simp add: init_def dead_port_def)
qed

text \<open>
  C1, amended. Whatever the player has done before (also when nothing was ever played):
  a call of \<open>stop\<close> during which none of the 2048 calls of \<open>send\<close> raises returns normally
  and has sent, after what the port had received before, the note-off of every pair of a
  channel below 16 and a note below 128; a call of \<open>stop\<close> during which call number \<open>k\<close>
  of the sweep is the first to raise has sent the first \<open>k\<close> note-offs of the sweep and no
  more, and that exception leaves \<open>stop\<close>.
\<close>

theorem stop_sweeps_until_send_raises:
  "((\<forall>k<2048. \<not> raises (port p) (calls (port p) + k)) \<longrightarrow>
      stop p = (p\<lparr>is_playing := False,
                  port := (port p)\<lparr>calls := calls (port p) + 2048,
                                    sent := sent (port p) @ all_notes_off\<rparr>\<rparr>, None)
      \<and> (\<forall>c<16. \<forall>n<128.
            Message_note_off n c
              \<in> set (drop (length (sent (port p))) (sent (port (fst (stop p)))))))
   \<and> (\<forall>k<2048. (\<forall>j<k. \<not> raises (port p) (calls (port p) + j))
                  \<and> raises (port p) (calls (port p) + k) \<longrightarrow>
      stop p = (p\<lparr>is_playing := False,
                  port := (port p)\<lparr>calls := calls (port p) + Suc k,
                                    sent := sent (port p) @ take k all_notes_off\<rparr>\<rparr>,
                Some PortError))"
proof (intro conjI impI allI)
  assume ok: "\<forall>k<2048. \<not> raises (port p) (calls (port p) + k)"
  then show whole: "stop p = (p\<lparr>is_playing := False,
                  port := (port p)\<lparr>calls := calls (port p) + 2048,
                                    sent := sent (port p) @ all_notes_off\<rparr>\<rparr>, None)"
    by (rule stop_delivers)
  fix c n :: nat
  assume "c < 16" "n < 128"
  then have "Message_note_off n c \<in> set all_notes_off"
    using in_all_notes_off by blast
  then show "Message_note_off n c
      \<in> set (drop (length (sent (port p))) (sent (port (fst (stop p)))))"
    by (simp add: whole)
next
  fix k
  assume "k < 2048"
    and "(\<forall>j<k. \<not> raises (port p) (calls (port p) + j)) \<and> raises (port p) (calls (port p) + k)"
  then show "stop p = (p\<lparr>is_playing := False,
                  port := (port p)\<lparr>calls := calls (port p) + Suc k,
                                    sent := sent (port p) @ take k all_notes_off\<rparr>\<rparr>,
                Some PortError)"
    by (intro stop_aborts_at) simp_all
qed

theorem stop_sweeps_until_send_raises_witness:
  "raises (port (init good_port)) = (\<lambda>k. False)
   \<and> snd (stop (init good_port)) = None
   \<and> sent (port (fst (stop (init good_port)))) = all_notes_off
   \<and> Message_note_off 60 0 \<in> set (sent (port (fst (stop (init good_port)))))
   \<and> raises (port (init (unplugged_at 3))) = (\<lambda>k. 3 \<le> k)
   \<and> snd (stop (init (unplugged_at 3))) = Some PortError
   \<and> sent (port (fst (stop (init (unplugged_at 3)))))
       = [Message_note_off 0 0, Message_note_off 1 0, Message_note_off 2 0]
   \<and> calls (port (fst (stop (init (unplugged_at 3))))) = 4"
proof -
  let ?g = "init good_port" and ?u = "init (unplugged_at 3)"
  have g: "raises (port ?g) = (\<lambda>k. False)" "sent (port ?g) = []" "calls (port ?g) = 0"
    by (simp_all add: init_def good_port_def)
  have u: "raises (port ?u) = (\<lambda>k. 3 \<le> k)" "sent (port ?u) = []" "calls (port ?u) = 0"
    by (simp_all add: init_def unplugged_at_def)
  have "\<forall>k<2048. \<not> raises (port ?g) (calls (port ?g) + k)" by (simp add: g)
  with stop_sweeps_until_send_raises [of ?g]
  have whole: "stop ?g = (?g\<lparr>is_playing := False,
                  port := (port ?g)\<lparr>calls := calls (port ?g) + 2048,
                                    sent := sent (port ?g) @ all_notes_off\<rparr>\<rparr>, None)"
    and every: "\<forall>c<16. \<forall>n<128.
            Message_note_off n c \<in> set (drop (length (sent (port ?g))) (sent (port (fst (stop ?g)))))"
    by blast+
  have "(0::nat) < 16" and "(60::nat) < 128" by simp_all
  with every have "Message_note_off 60 0
      \<in> set (drop (length (sent (port ?g))) (sent (port (fst (stop ?g)))))"
    by blast
  then have one: "Message_note_off 60 0 \<in> set (sent (port (fst (stop ?g))))"
    by (simp add: g)
  have "(3::nat) < 2048"
    and "(\<forall>j<3. \<not> raises (port ?u) (calls (port ?u) + j)) \<and> raises (port ?u) (calls (port ?u) + 3)"
    by (simp_all add: u)
  with stop_sweeps_until_send_raises [of ?u]
  have part: "stop ?u = (?u\<lparr>is_playing := False,
                  port := (port ?u)\<lparr>calls := calls (port ?u) + Suc 3,
                                    sent := sent (port ?u) @ take 3 all_notes_off\<rparr>\<rparr>,
                Some PortError)"
    by blast
  have "snd (stop ?g) = None" "sent (port (fst (stop ?g))) = all_notes_off"
    by (simp_all add: whole g)
  moreover have "snd (stop ?u) = Some PortError"
    "sent (port (fst (stop ?u))) = [Message_note_off 0 0, Message_note_off 1 0, Message_note_off 2 0]"
    "calls (port (fst (stop ?u))) = 4"
    by (simp_all add: part u first_notes_off)
  ultimately show ?thesis using g(1) u(1) one by (intro conjI)
qed

subsection \<open>Frame of \<open>stop\<close> and \<open>load_midi\<close>, the loops of the thread\<close>

lemma stop_frame_simps [simp]:
  "current_midi (fst (stop p)) = current_midi p"
  "is_playing (fst (stop p)) = False"
  "is_looping (fst (stop p)) = is_looping p"
  "loop_start (fst (stop p)) = loop_start p"
  "loop_end (fst (stop p)) = loop_end p"
  "tempo (fst (stop p)) = tempo p"
  "current_position (fst (stop p)) = current_position p"
  "raises (port (fst (stop p))) = raises (port p)"
  by (simp_all add: stop_eq)

lemma load_midi_eq:
  "load_midi files p filepath =
     (case snd (stop p) of
        Some e \<Rightarrow> (fst (stop p), Some e)
      | None \<Rightarrow>
          (case files filepath of
             None \<Rightarrow> (fst (stop p), Some LoadError)
           | Some mf \<Rightarrow>
               ((fst (stop p))\<lparr>current_midi := Some mf,
                   loop_end := Some (sum_list (map time (concat (tracks mf))))\<rparr>, None)))"
  by (simp add: load_midi_def split: prod.split option.split)

lemma load_midi_ok_iff:
  "snd (load_midi files p filepath) = None \<longleftrightarrow> snd (stop p) = None \<and> files filepath \<noteq> None"
  by (simp add: load_midi_eq split: option.split)

lemma stop_never_raises:
  assumes "\<forall>k. \<not> raises (port p) k"
  shows "snd (stop p) = None"
  using assms by (simp add: stop_delivers)

lemma for_body_frame:
  "is_playing (fst (for_body fadd p msg)) = is_playing p"
  "is_looping (fst (for_body fadd p msg)) = is_looping p"
  "tempo (fst (for_body fadd p msg)) = tempo p"
  "loop_start (fst (for_body fadd p msg)) = loop_start p"
  "loop_end (fst (for_body fadd p msg)) = loop_end p"
  "current_midi (fst (for_body fadd p msg)) = current_midi p"
  "raises (port (fst (for_body fadd p msg))) = raises (port p)"
  by (simp_all add: for_body_def send_def Let_def split: option.split)

lemma for_loop_frame:
  "is_playing (fst (for_loop fadd p msgs)) = is_playing p
   \<and> is_looping (fst (for_loop fadd p msgs)) = is_looping p
   \<and> tempo (fst (for_loop fadd p msgs)) = tempo p
   \<and> loop_start (fst (for_loop fadd p msgs)) = loop_start p
   \<and> loop_end (fst (for_loop fadd p msgs)) = loop_end p
   \<and> current_midi (fst (for_loop fadd p msgs)) = current_midi p
   \<and> raises (port (fst (for_loop fadd p msgs))) = raises (port p)"
proof (induction msgs arbitrary: p)
  case Nil
  show ?case by simp
next
  case (Cons msg msgs)
  obtain p' out where b: "for_body fadd p msg = (p', out)" by (cases "for_body fadd p msg")
  have f: "is_playing p' = is_playing p" "is_looping p' = is_looping p" "tempo p' = tempo p"
    "loop_start p' = loop_start p" "loop_end p' = loop_end p" "current_midi p' = current_midi p"
    "raises (port p') = raises (port p)"
    using for_body_frame [of fadd p msg] b by simp_all
  show ?case
  proof (cases out)
    case Continue
    with b have "for_loop fadd p (msg # msgs) = for_loop fadd p' msgs" by simp
    with Cons.IH [of p'] f show ?thesis by simp
  next
    case Broke
    with b f show ?thesis by simp
  next
    case (Raised e)
    with b f show ?thesis by simp
  qed
qed

lemma for_loop_append:
  "for_loop fadd p (xs @ ys) =
     (case for_loop fadd p xs of
        (p', Continue) \<Rightarrow> for_loop fadd p' ys
      | (p', Broke) \<Rightarrow> (p', Broke)
      | (p', Raised e) \<Rightarrow> (p', Raised e))"
  by (induction xs arbitrary: p) (auto split: prod.split outcome.split)

text \<open>A round in which nothing raises: the message is sent if it is a note message, the
  position is advanced, and then the loop region is tested.\<close>

lemma for_body_round:
  assumes "is_playing p" "0 < tempo p" "0 \<le> time msg"
    and "is_note_message msg \<longrightarrow> \<not> raises (port p) (calls (port p))"
    and "is_looping p \<longrightarrow> loop_end p \<noteq> None"
  shows "for_body fadd p msg =
     (if is_looping p \<and> (\<exists>le. loop_end p = Some le \<and> le \<le> fadd (current_position p) (time msg))
      then (p\<lparr>port := (if is_note_message msg
                         then (port p)\<lparr>calls := Suc (calls (port p)), sent := sent (port p) @ [msg]\<rparr>
                         else port p),
              current_position := loop_start p\<rparr>, Broke)
      else (p\<lparr>port := (if is_note_message msg
                         then (port p)\<lparr>calls := Suc (calls (port p)), sent := sent (port p) @ [msg]\<rparr>
                         else port p),
              current_position := fadd (current_position p) (time msg)\<rparr>, Continue))"
proof -
  from assms(2,3) have "\<not> time msg * (1 / tempo p) < 0"
    by (simp add: not_less zero_le_mult_iff)
  with assms show ?thesis
    by (auto simp: for_body_def send_def is_note_message_def Let_def)
qed

lemma for_body_plain:
  assumes "is_playing p" "\<not> is_looping p" "0 < tempo p" "0 \<le> time msg"
    and "is_note_message msg \<longrightarrow> \<not> raises (port p) (calls (port p))"
  shows "for_body fadd p msg =
     (p\<lparr>port := (if is_note_message msg
                   then (port p)\<lparr>calls := Suc (calls (port p)), sent := sent (port p) @ [msg]\<rparr>
                   else port p),
        current_position := fadd (current_position p) (time msg)\<rparr>, Continue)"
  using assms by (simp add: for_body_round)

lemma for_loop_plain_pass:
  assumes "is_playing p" "\<not> is_looping p" "0 < tempo p" "\<forall>m\<in>set msgs. 0 \<le> time m"
    and "\<forall>k<length (filter is_note_message msgs). \<not> raises (port p) (calls (port p) + k)"
  shows "for_loop fadd p msgs =
     (p\<lparr>port := (port p)\<lparr>calls := calls (port p) + length (filter is_note_message msgs),
                          sent := sent (port p) @ filter is_note_message msgs\<rparr>,
        current_position := foldl fadd (current_position p) (map time msgs)\<rparr>, Continue)"
  using assms
proof (induction msgs arbitrary: p)
  case Nil
  show ?case by simp
next
  case (Cons msg msgs)
  let ?prt = "if is_note_message msg
              then (port p)\<lparr>calls := Suc (calls (port p)), sent := sent (port p) @ [msg]\<rparr>
              else port p"
  let ?p = "p\<lparr>port := ?prt, current_position := fadd (current_position p) (time msg)\<rparr>"
  from Cons.prems(5) have first: "is_note_message msg \<longrightarrow> \<not> raises (port p) (calls (port p))"
    by fastforce
  from Cons.prems have body: "for_body fadd p msg = (?p, Continue)"
    using first by (simp add: for_body_plain)
  have rest: "\<forall>k<length (filter is_note_message msgs). \<not> raises (port ?p) (calls (port ?p) + k)"
  proof (intro allI impI)
    fix k assume k: "k < length (filter is_note_message msgs)"
    show "\<not> raises (port ?p) (calls (port ?p) + k)"
    proof (cases "is_note_message msg")
      case True
      with k have "Suc k < length (filter is_note_message (msg # msgs))" by simp
      with Cons.prems(5) have "\<not> raises (port p) (calls (port p) + Suc k)" by blast
      with True show ?thesis by simp
    next
      case False
      with k Cons.prems(5) show ?thesis by simp
    qed
  qed
  have "for_loop fadd ?p msgs =
     (?p\<lparr>port := (port ?p)\<lparr>calls := calls (port ?p) + length (filter is_note_message msgs),
                          sent := sent (port ?p) @ filter is_note_message msgs\<rparr>,
        current_position := foldl fadd (current_position ?p) (map time msgs)\<rparr>, Continue)"
    using Cons.prems(1-4) rest by (intro Cons.IH) simp_all
  with body show ?case by simp
qed

lemma handled_not_looping [simp]: "handled fadd False le pos msgs = msgs"
  by (induction msgs arbitrary: pos) simp_all

lemma handled_prefix: "\<exists>n\<le>length msgs. handled fadd looping le pos msgs = take n msgs"
proof (induction msgs arbitrary: pos)
  case Nil
  show ?case by simp
next
  case (Cons msg msgs)
  show ?case
  proof (cases "looping \<and> (case le of None \<Rightarrow> False | Some e \<Rightarrow> e \<le> fadd pos (time msg))")
    case True
    then have "handled fadd looping le pos (msg # msgs) = take (Suc 0) (msg # msgs)" by simp
    moreover have "Suc 0 \<le> length (msg # msgs)" by simp
    ultimately show ?thesis by blast
  next
    case False
    from Cons.IH [of "fadd pos (time msg)"] obtain n where
      "n \<le> length msgs" "handled fadd looping le (fadd pos (time msg)) msgs = take n msgs"
      by blast
    moreover have "handled fadd looping le pos (msg # msgs)
        = msg # handled fadd looping le (fadd pos (time msg)) msgs"
      by (simp only: handled.simps if_not_P [OF False])
    ultimately have "handled fadd looping le pos (msg # msgs) = take (Suc n) (msg # msgs)"
      "Suc n \<le> length (msg # msgs)"
      by simp_all
    then show ?thesis by blast
  qed
qed

text \<open>A pass in which nothing raises, looping or not: the port receives the note messages
  among the handled ones.\<close>

lemma for_loop_pass_port:
  assumes "is_playing p" "0 < tempo p" "\<forall>m\<in>set msgs. 0 \<le> time m"
    and "is_looping p \<longrightarrow> loop_end p \<noteq> None"
    and "\<forall>k<length (filter is_note_message
                 (handled fadd (is_looping p) (loop_end p) (current_position p) msgs)).
           \<not> raises (port p) (calls (port p) + k)"
  shows "port (fst (for_loop fadd p msgs)) =
     (port p)\<lparr>calls := calls (port p) + length (filter is_note_message
                 (handled fadd (is_looping p) (loop_end p) (current_position p) msgs)),
              sent := sent (port p) @ filter is_note_message
                 (handled fadd (is_looping p) (loop_end p) (current_position p) msgs)\<rparr>
     \<and> (\<forall>e. snd (for_loop fadd p msgs) \<noteq> Raised e)"
  using assms
proof (induction msgs arbitrary: p)
  case Nil
  show ?case by simp
next
  case (Cons msg msgs)
  let ?prt = "if is_note_message msg
              then (port p)\<lparr>calls := Suc (calls (port p)), sent := sent (port p) @ [msg]\<rparr>
              else port p"
  let ?pos = "fadd (current_position p) (time msg)"
  let ?reset = "is_looping p \<and> (\<exists>le. loop_end p = Some le \<and> le \<le> ?pos)"
  have reset_iff: "?reset \<longleftrightarrow>
      is_looping p \<and> (case loop_end p of None \<Rightarrow> False | Some e \<Rightarrow> e \<le> ?pos)"
    by (simp split: option.split)
  from Cons.prems(5) have first: "is_note_message msg \<longrightarrow> \<not> raises (port p) (calls (port p))"
    by (cases "is_note_message msg") fastforce+
  have body: "for_body fadd p msg =
     (if ?reset then (p\<lparr>port := ?prt, current_position := loop_start p\<rparr>, Broke)
      else (p\<lparr>port := ?prt, current_position := ?pos\<rparr>, Continue))"
    using Cons.prems(1-4) first by (intro for_body_round) simp_all
  show ?case
  proof (cases ?reset)
    case True
    have "for_body fadd p msg = (p\<lparr>port := ?prt, current_position := loop_start p\<rparr>, Broke)"
      using body by (simp only: if_P [OF True])
    then have "for_loop fadd p (msg # msgs)
        = (p\<lparr>port := ?prt, current_position := loop_start p\<rparr>, Broke)"
      by simp
    moreover from True
    have "is_looping p \<and> (case loop_end p of None \<Rightarrow> False | Some e \<Rightarrow> e \<le> ?pos)"
      using reset_iff by blast
    then have "handled fadd (is_looping p) (loop_end p) (current_position p) (msg # msgs) = [msg]"
      by simp
    ultimately show ?thesis by simp
  next
    case False
    let ?p = "p\<lparr>port := ?prt, current_position := ?pos\<rparr>"
    have "for_body fadd p msg = (?p, Continue)"
      using body by (simp only: if_not_P [OF False])
    then have run: "for_loop fadd p (msg # msgs) = for_loop fadd ?p msgs" by simp
    from False
    have "\<not> (is_looping p \<and> (case loop_end p of None \<Rightarrow> False | Some e \<Rightarrow> e \<le> ?pos))"
      using reset_iff by blast
    then have "handled fadd (is_looping p) (loop_end p) (current_position p) (msg # msgs)
        = msg # handled fadd (is_looping p) (loop_end p) ?pos msgs"
      by (simp only: handled.simps if_False)
    then have h: "handled fadd (is_looping p) (loop_end p) (current_position p) (msg # msgs)
        = msg # handled fadd (is_looping ?p) (loop_end ?p) (current_position ?p) msgs"
      by simp
    let ?rest = "filter is_note_message
        (handled fadd (is_looping ?p) (loop_end ?p) (current_position ?p) msgs)"
    have rest: "\<forall>k<length ?rest. \<not> raises (port ?p) (calls (port ?p) + k)"
    proof (intro allI impI)
      fix k assume k: "k < length ?rest"
      show "\<not> raises (port ?p) (calls (port ?p) + k)"
      proof (cases "is_note_message msg")
        case True
        with k h have "Suc k < length (filter is_note_message
            (handled fadd (is_looping p) (loop_end p) (current_position p) (msg # msgs)))"
          by simp
        with Cons.prems(5) have "\<not> raises (port p) (calls (port p) + Suc k)" by blast
        with True show ?thesis by simp
      next
        case False
        with k h have "k < length (filter is_note_message
            (handled fadd (is_looping p) (loop_end p) (current_position p) (msg # msgs)))"
          by simp
        with Cons.prems(5) have "\<not> raises (port p) (calls (port p) + k)" by blast
        with False show ?thesis by simp
      qed
    qed
    have "port (fst (for_loop fadd ?p msgs)) =
       (port ?p)\<lparr>calls := calls (port ?p) + length ?rest, sent := sent (port ?p) @ ?rest\<rparr>
       \<and> (\<forall>e. snd (for_loop fadd ?p msgs) \<noteq> Raised e)"
      using Cons.prems(1-4) rest by (intro Cons.IH) simp_all
    with run h show ?thesis by (cases "is_note_message msg") simp_all
  qed
qed

lemma for_body_sent:
  "sent (port (fst (for_body fadd p msg))) = sent (port p)
   \<or> is_note_message msg \<and> sent (port (fst (for_body fadd p msg))) = sent (port p) @ [msg]"
  by (simp add: for_body_def send_def is_note_message_def Let_def split: option.split)

lemma for_body_Continue_sent:
  assumes "for_body fadd p msg = (p', Continue)"
  shows "sent (port p') = sent (port p) @ filter is_note_message [msg]"
    and "current_position p' = fadd (current_position p) (time msg)"
  using assms
  by (auto simp: for_body_def send_def is_note_message_def Let_def
           split: if_splits option.splits)

lemma for_loop_sent_prefix:
  "\<exists>k\<le>length msgs.
     sent (port (fst (for_loop fadd p msgs))) = sent (port p) @ filter is_note_message (take k msgs)"
proof (induction msgs arbitrary: p)
  case Nil
  show ?case by simp
next
  case (Cons msg msgs)
  obtain p' out where b: "for_body fadd p msg = (p', out)" by (cases "for_body fadd p msg")
  show ?case
  proof (cases "out = Continue")
    case True
    with b have run: "for_loop fadd p (msg # msgs) = for_loop fadd p' msgs" by simp
    from Cons.IH [of p'] obtain k where k: "k \<le> length msgs"
      "sent (port (fst (for_loop fadd p' msgs))) = sent (port p') @ filter is_note_message (take k msgs)"
      by blast
    from b True have "sent (port p') = sent (port p) @ filter is_note_message [msg]"
      using for_body_Continue_sent(1) by blast
    with k run have "Suc k \<le> length (msg # msgs) \<and>
        sent (port (fst (for_loop fadd p (msg # msgs)))) =
          sent (port p) @ filter is_note_message (take (Suc k) (msg # msgs))"
      by simp
    then show ?thesis by blast
  next
    case False
    with b have run: "for_loop fadd p (msg # msgs) = (p', out)" by (cases out) simp_all
    from for_body_sent [of fadd p msg] b
    consider "sent (port p') = sent (port p)"
      | "is_note_message msg" "sent (port p') = sent (port p) @ [msg]" by auto
    then show ?thesis
    proof cases
      case 1
      with run have "0 \<le> length (msg # msgs) \<and>
        sent (port (fst (for_loop fadd p (msg # msgs)))) =
          sent (port p) @ filter is_note_message (take 0 (msg # msgs))" by simp
      then show ?thesis by blast
    next
      case 2
      with run have "Suc 0 \<le> length (msg # msgs) \<and>
        sent (port (fst (for_loop fadd p (msg # msgs)))) =
          sent (port p) @ filter is_note_message (take (Suc 0) (msg # msgs))" by simp
      then show ?thesis by blast
    qed
  qed
qed

lemma while_loop_one_pass:
  assumes "\<not> is_looping p" "is_playing p" "current_midi p = Some mf"
  shows "while_loop fadd (Suc n) p =
     Some (fst (for_loop fadd p (play_messages mf)),
           case snd (for_loop fadd p (play_messages mf)) of Raised e \<Rightarrow> Some e | _ \<Rightarrow> None)"
proof -
  obtain p' out where run: "for_loop fadd p (play_messages mf) = (p', out)"
    by (cases "for_loop fadd p (play_messages mf)")
  have "\<not> is_looping p'"
    using assms(1) run for_loop_frame [of fadd p "play_messages mf"] by simp
  with assms run show ?thesis
    by (subst while_loop.simps) (simp split: outcome.split)
qed

lemma while_loop_stopped: "\<not> is_playing p \<Longrightarrow> while_loop fadd fuel p = Some (p, None)"
  by (subst while_loop.simps) simp

lemma while_loop_no_file:
  "is_playing p \<Longrightarrow> current_midi p = None \<Longrightarrow> while_loop fadd (Suc n) p = Some (p, Some AttributeError)"
  by (subst while_loop.simps) simp

lemma play_thread_leaves_stopped:
  assumes "play_thread fadd fuel p = Some (p', e)"
  shows "\<not> is_playing p'"
  using assms
  by (auto simp: play_thread_def stop_eq split: option.splits prod.splits)



text \<open>What a round hands the port, whenever it gets past \<open>time.sleep\<close>: the message if it is
  a note message and nothing else, also in the round that ends the pass.\<close>

lemma for_body_dispatch:
  assumes "is_playing p" "tempo p \<noteq> 0" "\<not> time msg * (1 / tempo p) < 0"
  shows "port (fst (for_body fadd p msg)) =
     (if is_note_message msg then fst (send (port p) msg) else port p)"
  using assms
  by (simp add: for_body_def is_note_message_def Let_def split: prod.split option.split)

lemma for_body_other_keeps_port:
  "\<not> is_note_message msg \<Longrightarrow> port (fst (for_body fadd p msg)) = port p"
  by (simp add: for_body_def is_note_message_def Let_def split: option.split)

lemma stop_is_playing_irrelevant: "stop (p\<lparr>is_playing := b\<rparr>) = stop p"
  by (simp add: stop_eq)

lemma play_thread_one_pass:
  assumes "\<not> is_looping p" "is_playing p" "current_midi p = Some mf"
  shows "play_thread fadd (Suc n) p = Some (stop (fst (for_loop fadd p (play_messages mf))))"
proof (cases "snd (for_loop fadd p (play_messages mf))")
  case Continue
  with assms show ?thesis by (simp add: play_thread_def while_loop_one_pass)
next
  case Broke
  with assms show ?thesis by (simp add: play_thread_def while_loop_one_pass)
next
  case (Raised e)
  with assms show ?thesis
    by (simp add: play_thread_def while_loop_one_pass stop_is_playing_irrelevant)
qed

lemma example_total_ticks: "sum_list (map time (concat (tracks example_song))) = 288"
  by (simp add: example_song_def example_on_def example_off_def example_end_def)

lemma loaded_example_eq:
  assumes "\<forall>k<2048. \<not> raises prt (calls prt + k)"
  shows "loaded_example prt =
     (init (prt\<lparr>calls := calls prt + 2048, sent := sent prt @ all_notes_off\<rparr>))
       \<lparr>current_midi := Some example_song, loop_end := Some 288\<rparr>"
proof -
  have "\<forall>k<2048. \<not> raises (port (init prt)) (calls (port (init prt)) + k)"
    using assms by (simp add: init_def)
  then have "stop (init prt) =
      ((init prt)\<lparr>is_playing := False,
          port := (port (init prt))\<lparr>calls := calls (port (init prt)) + 2048,
                                    sent := sent (port (init prt)) @ all_notes_off\<rparr>\<rparr>, None)"
    by (rule stop_delivers)
  then show ?thesis
    by (simp add: loaded_example_def load_midi_def example_files_def example_total_ticks init_def)
qed

lemma playing_example_eq:
  assumes "\<forall>k<2048. \<not> raises prt (calls prt + k)"
  shows "playing_example prt =
     (init (prt\<lparr>calls := calls prt + 2048, sent := sent prt @ all_notes_off\<rparr>))
       \<lparr>current_midi := Some example_song, loop_end := Some 288, is_playing := True\<rparr>"
  by (simp add: playing_example_def loaded_example_eq [OF assms] play_def init_def)

lemma example_notes:
  "filter is_note_message (play_messages example_song) = [example_on, example_off]"
  "foldl (+) pos (map time (play_messages example_song)) = pos + 3 / 8"
  "\<forall>m\<in>set (play_messages example_song). 0 \<le> time m"
  by (simp_all add: example_song_def is_note_message_def example_on_def example_off_def
        example_end_def)

lemma playing_example_good_port:
  "playing_example good_port =
     \<lparr>current_midi = Some example_song, is_playing = True, is_looping = False, loop_start = 0,
      loop_end = Some 288, tempo = 1, current_position = 0,
      port = \<lparr>sent = all_notes_off, calls = 2048, raises = (\<lambda>k. False)\<rparr>\<rparr>"
  using playing_example_eq [of good_port] by (simp add: good_port_def init_def)

lemma loaded_example_good_port:
  "loaded_example good_port =
     \<lparr>current_midi = Some example_song, is_playing = False, is_looping = False, loop_start = 0,
      loop_end = Some 288, tempo = 1, current_position = 0,
      port = \<lparr>sent = all_notes_off, calls = 2048, raises = (\<lambda>k. False)\<rparr>\<rparr>"
  using loaded_example_eq [of good_port] by (simp add: good_port_def init_def)

lemma example_pass_good_port:
  "for_loop (+) (playing_example good_port) (play_messages example_song) =
     ((playing_example good_port)
        \<lparr>port := \<lparr>sent = all_notes_off @ [example_on, example_off], calls = 2050,
                   raises = (\<lambda>k. False)\<rparr>,
         current_position := 3 / 8\<rparr>, Continue)"
proof -
  have "for_loop (+) (playing_example good_port) (play_messages example_song) =
     ((playing_example good_port)
        \<lparr>port := (port (playing_example good_port))
             \<lparr>calls := calls (port (playing_example good_port))
                  + length (filter is_note_message (play_messages example_song)),
              sent := sent (port (playing_example good_port))
                  @ filter is_note_message (play_messages example_song)\<rparr>,
         current_position := foldl (+) (current_position (playing_example good_port))
             (map time (play_messages example_song))\<rparr>, Continue)"
    by (rule for_loop_plain_pass) (simp_all add: playing_example_good_port example_notes)
  then show ?thesis
    by (simp add: example_notes) (simp add: playing_example_good_port)
qed

lemma played_example_good_port:
  "played_example good_port =
     \<lparr>current_midi = Some example_song, is_playing = False, is_looping = False, loop_start = 0,
      loop_end = Some 288, tempo = 1, current_position = 3 / 8,
      port = \<lparr>sent = all_notes_off @ [example_on, example_off] @ all_notes_off, calls = 4098,
               raises = (\<lambda>k. False)\<rparr>\<rparr>"
proof -
  have "play_thread (+) (Suc 0) (playing_example good_port) =
      Some (stop (fst (for_loop (+) (playing_example good_port) (play_messages example_song))))"
    by (rule play_thread_one_pass) (simp_all add: playing_example_good_port)
  then show ?thesis
    by (simp add: played_example_def example_pass_good_port stop_delivers)
       (simp add: playing_example_good_port)
qed

subsection \<open>The scheduling thread\<close>

lemma looping_example_good_port:
  "looping_example good_port =
     \<lparr>current_midi = Some example_song, is_playing = True, is_looping = True,
      loop_start = 5 / 32, loop_end = Some (5 / 16), tempo = 1, current_position = 0,
      port = \<lparr>sent = all_notes_off, calls = 2048, raises = (\<lambda>k. False)\<rparr>\<rparr>"
  by (simp add: looping_example_def toggle_loop_def set_loop_points_def playing_example_good_port)

lemma example_play_messages:
  "play_messages example_song = [example_on, example_off, example_end]"
  by (simp add: example_song_def)

lemma looping_example_rounds:
  "for_body (+) (looping_example good_port) example_on =
     (\<lparr>current_midi = Some example_song, is_playing = True, is_looping = True,
       loop_start = 5 / 32, loop_end = Some (5 / 16), tempo = 1, current_position = 1 / 8,
       port = \<lparr>sent = all_notes_off @ [example_on], calls = 2049, raises = (\<lambda>k. False)\<rparr>\<rparr>,
      Continue)"
  "for_body (+)
     \<lparr>current_midi = Some example_song, is_playing = True, is_looping = True,
       loop_start = 5 / 32, loop_end = Some (5 / 16), tempo = 1, current_position = 1 / 8,
       port = \<lparr>sent = all_notes_off @ [example_on], calls = 2049, raises = (\<lambda>k. False)\<rparr>\<rparr>
     example_off =
     (\<lparr>current_midi = Some example_song, is_playing = True, is_looping = True,
       loop_start = 5 / 32, loop_end = Some (5 / 16), tempo = 1, current_position = 5 / 32,
       port = \<lparr>sent = all_notes_off @ [example_on, example_off], calls = 2050,
                raises = (\<lambda>k. False)\<rparr>\<rparr>,
      Broke)"
  by (simp_all add: looping_example_good_port for_body_def send_def example_on_def example_off_def)

lemma looping_example_first_pass:
  "for_loop (+) (looping_example good_port) (play_messages example_song) =
     (\<lparr>current_midi = Some example_song, is_playing = True, is_looping = True,
       loop_start = 5 / 32, loop_end = Some (5 / 16), tempo = 1, current_position = 5 / 32,
       port = \<lparr>sent = all_notes_off @ [example_on, example_off], calls = 2050,
                raises = (\<lambda>k. False)\<rparr>\<rparr>,
      Broke)"
  by (simp add: example_play_messages looping_example_rounds)

lemma looping_example_second_pass:
  "for_loop (+)
     \<lparr>current_midi = Some example_song, is_playing = True, is_looping = True,
       loop_start = 5 / 32, loop_end = Some (5 / 16), tempo = 1, current_position = 5 / 32,
       port = \<lparr>sent = all_notes_off @ [example_on, example_off], calls = 2050,
                raises = (\<lambda>k. False)\<rparr>\<rparr>
     (play_messages example_song) =
     (\<lparr>current_midi = Some example_song, is_playing = True, is_looping = True,
       loop_start = 5 / 32, loop_end = Some (5 / 16), tempo = 1, current_position = 5 / 32,
       port = \<lparr>sent = all_notes_off @ [example_on, example_off, example_on, example_off],
                calls = 2052, raises = (\<lambda>k. False)\<rparr>\<rparr>,
      Broke)"
  by (simp add: example_song_def for_body_def send_def example_on_def example_off_def)

lemma looping_example_handled:
  "handled (+) True (Some (5 / 16)) 0 (play_messages example_song) = [example_on, example_off]"
  by (simp add: example_song_def example_on_def example_off_def)

text \<open>
  C7. In every round that gets past \<open>time.sleep\<close>, the one that ends a pass included, the
  port is handed the message if its type is note-on or note-off, and nothing otherwise; a
  message of another type never changes the port, and a round that goes on to the next
  message has advanced the position by the delay of its message, of whatever type. A pass
  hands the port, in the order of the sequence, the note messages of a prefix of the
  sequence and nothing else. When nothing raises (the player is playing, the tempo is
  positive, no delay is negative, the port accepts the calls), the port has received
  exactly the note messages among the messages the pass handles: all messages when the
  player does not loop (the position has then advanced by all delays, one after the other),
  and otherwise those up to the first one that takes the position to \<open>loop_end\<close>.
\<close>

theorem only_notes_dispatched_in_order:
  "(\<forall>msg. is_playing p \<and> tempo p \<noteq> 0 \<and> \<not> time msg * (1 / tempo p) < 0 \<longrightarrow>
       port (fst (for_body fadd p msg))
         = (if is_note_message msg then fst (send (port p) msg) else port p))
   \<and> (\<forall>msg. \<not> is_note_message msg \<longrightarrow> port (fst (for_body fadd p msg)) = port p)
   \<and> (\<forall>msg p'. for_body fadd p msg = (p', Continue) \<longrightarrow>
         current_position p' = fadd (current_position p) (time msg))
   \<and> (\<exists>k\<le>length msgs.
         sent (port (fst (for_loop fadd p msgs)))
           = sent (port p) @ filter is_note_message (take k msgs))
   \<and> (is_playing p \<and> 0 < tempo p \<and> (\<forall>m\<in>set msgs. 0 \<le> time m)
        \<and> (is_looping p \<longrightarrow> loop_end p \<noteq> None)
        \<and> (\<forall>k<length (filter is_note_message
                     (handled fadd (is_looping p) (loop_end p) (current_position p) msgs)).
               \<not> raises (port p) (calls (port p) + k))
      \<longrightarrow> port (fst (for_loop fadd p msgs)) =
            (port p)\<lparr>calls := calls (port p) + length (filter is_note_message
                        (handled fadd (is_looping p) (loop_end p) (current_position p) msgs)),
                     sent := sent (port p) @ filter is_note_message
                        (handled fadd (is_looping p) (loop_end p) (current_position p) msgs)\<rparr>)
   \<and> (is_playing p \<and> \<not> is_looping p \<and> 0 < tempo p \<and> (\<forall>m\<in>set msgs. 0 \<le> time m)
        \<and> (\<forall>k<length (filter is_note_message msgs). \<not> raises (port p) (calls (port p) + k))
      \<longrightarrow> for_loop fadd p msgs =
            (p\<lparr>port := (port p)\<lparr>calls := calls (port p) + length (filter is_note_message msgs),
                                 sent := sent (port p) @ filter is_note_message msgs\<rparr>,
               current_position := foldl fadd (current_position p) (map time msgs)\<rparr>, Continue))"
proof (intro conjI allI impI)
  fix msg :: message
  assume "is_playing p \<and> tempo p \<noteq> 0 \<and> \<not> time msg * (1 / tempo p) < 0"
  then show "port (fst (for_body fadd p msg))
         = (if is_note_message msg then fst (send (port p) msg) else port p)"
    by (intro for_body_dispatch) simp_all
next
  fix msg :: message assume "\<not> is_note_message msg"
  then show "port (fst (for_body fadd p msg)) = port p" by (rule for_body_other_keeps_port)
next
  fix msg p' assume "for_body fadd p msg = (p', Continue)"
  then show "current_position p' = fadd (current_position p) (time msg)"
    by (rule for_body_Continue_sent)
next
  show "\<exists>k\<le>length msgs.
      sent (port (fst (for_loop fadd p msgs))) = sent (port p) @ filter is_note_message (take k msgs)"
    by (rule for_loop_sent_prefix)
next
  assume a: "is_playing p \<and> 0 < tempo p \<and> (\<forall>m\<in>set msgs. 0 \<le> time m)
        \<and> (is_looping p \<longrightarrow> loop_end p \<noteq> None)
        \<and> (\<forall>k<length (filter is_note_message
                     (handled fadd (is_looping p) (loop_end p) (current_position p) msgs)).
               \<not> raises (port p) (calls (port p) + k))"
  have "port (fst (for_loop fadd p msgs)) =
            (port p)\<lparr>calls := calls (port p) + length (filter is_note_message
                        (handled fadd (is_looping p) (loop_end p) (current_position p) msgs)),
                     sent := sent (port p) @ filter is_note_message
                        (handled fadd (is_looping p) (loop_end p) (current_position p) msgs)\<rparr>
        \<and> (\<forall>e. snd (for_loop fadd p msgs) \<noteq> Raised e)"
    using a by (intro for_loop_pass_port) blast+
  then show "port (fst (for_loop fadd p msgs)) =
            (port p)\<lparr>calls := calls (port p) + length (filter is_note_message
                        (handled fadd (is_looping p) (loop_end p) (current_position p) msgs)),
                     sent := sent (port p) @ filter is_note_message
                        (handled fadd (is_looping p) (loop_end p) (current_position p) msgs)\<rparr>"
    by blast
next
  assume "is_playing p \<and> \<not> is_looping p \<and> 0 < tempo p \<and> (\<forall>m\<in>set msgs. 0 \<le> time m)
        \<and> (\<forall>k<length (filter is_note_message msgs). \<not> raises (port p) (calls (port p) + k))"
  then show "for_loop fadd p msgs =
            (p\<lparr>port := (port p)\<lparr>calls := calls (port p) + length (filter is_note_message msgs),
                                 sent := sent (port p) @ filter is_note_message msgs\<rparr>,
               current_position := foldl fadd (current_position p) (map time msgs)\<rparr>, Continue)"
    by (intro for_loop_plain_pass) blast+
qed

theorem only_notes_dispatched_in_order_witness:
  "is_playing (looping_example good_port)
   \<and> is_looping (looping_example good_port)
   \<and> 0 < tempo (looping_example good_port)
   \<and> loop_end (looping_example good_port) = Some (5 / 16)
   \<and> raises (port (looping_example good_port)) = (\<lambda>k. False)
   \<and> handled (+) True (Some (5 / 16)) 0 (play_messages example_song) = [example_on, example_off]
   \<and> sent (port (fst (for_loop (+) (looping_example good_port) (play_messages example_song))))
       = sent (port (looping_example good_port)) @ [example_on, example_off]
   \<and> snd (for_body (+) (fst (for_body (+) (looping_example good_port) example_on)) example_off)
       = Broke
   \<and> sent (port (fst (for_body (+) (fst (for_body (+) (looping_example good_port) example_on))
                          example_off)))
       = sent (port (looping_example good_port)) @ [example_on, example_off]
   \<and> is_playing (playing_example good_port)
   \<and> \<not> is_looping (playing_example good_port)
   \<and> sent (port (fst (for_loop (+) (playing_example good_port) (play_messages example_song))))
       = sent (port (playing_example good_port)) @ [example_on, example_off]
   \<and> current_position (fst (for_loop (+) (playing_example good_port) (play_messages example_song)))
       = 3 / 8
   \<and> \<not> is_note_message example_end
   \<and> port (fst (for_body (+) (playing_example good_port) example_end))
       = port (playing_example good_port)"
proof -
  let ?l = "looping_example good_port" and ?p = "playing_example good_port"
  let ?msgs = "play_messages example_song"
  let ?q = "fst (for_body (+) ?l example_on)"
  note looping = only_notes_dispatched_in_order [of ?l "(+)" ?msgs]
  note second_round = only_notes_dispatched_in_order [of ?q "(+)" ?msgs]
  note plain = only_notes_dispatched_in_order [of ?p "(+)" ?msgs]
  have l: "is_playing ?l" "is_looping ?l" "0 < tempo ?l" "loop_end ?l = Some (5 / 16)"
    "raises (port ?l) = (\<lambda>k. False)" "current_position ?l = 0"
    "sent (port ?l) = all_notes_off"
    by (simp_all add: looping_example_good_port)
  have h: "handled (+) True (Some (5 / 16)) 0 ?msgs = [example_on, example_off]"
    by (rule looping_example_handled)
  have pre_l: "is_playing ?l \<and> 0 < tempo ?l \<and> (\<forall>m\<in>set ?msgs. 0 \<le> time m)
        \<and> (is_looping ?l \<longrightarrow> loop_end ?l \<noteq> None)
        \<and> (\<forall>k<length (filter is_note_message
                     (handled (+) (is_looping ?l) (loop_end ?l) (current_position ?l) ?msgs)).
               \<not> raises (port ?l) (calls (port ?l) + k))"
    by (simp add: l example_notes)
  with looping have "port (fst (for_loop (+) ?l ?msgs)) =
            (port ?l)\<lparr>calls := calls (port ?l) + length (filter is_note_message
                        (handled (+) (is_looping ?l) (loop_end ?l) (current_position ?l) ?msgs)),
                     sent := sent (port ?l) @ filter is_note_message
                        (handled (+) (is_looping ?l) (loop_end ?l) (current_position ?l) ?msgs)\<rparr>"
    by blast
  then have looped: "sent (port (fst (for_loop (+) ?l ?msgs))) = sent (port ?l) @ [example_on, example_off]"
    by (simp add: l h) (simp add: is_note_message_def example_on_def example_off_def)
  have q: "is_playing ?q" "tempo ?q \<noteq> 0" "\<not> time example_off * (1 / tempo ?q) < 0"
    "is_note_message example_off" "\<not> raises (port ?q) (calls (port ?q))"
    "sent (port ?q) = all_notes_off @ [example_on]"
    by (simp_all add: looping_example_rounds)
       (simp_all add: example_off_def is_note_message_def)
  from second_round q(1-3)
  have "port (fst (for_body (+) ?q example_off))
         = (if is_note_message example_off then fst (send (port ?q) example_off) else port ?q)"
    by blast
  then have reset_round:
    "sent (port (fst (for_body (+) ?q example_off))) = sent (port ?l) @ [example_on, example_off]"
    by (simp add: q(4-6) send_def l)
  have broke: "snd (for_body (+) ?q example_off) = Broke"
    by (simp add: looping_example_rounds)
  have p: "is_playing ?p" "\<not> is_looping ?p" "sent (port ?p) = all_notes_off"
    by (simp_all add: playing_example_good_port)
  have pre_p: "is_playing ?p \<and> \<not> is_looping ?p \<and> 0 < tempo ?p \<and> (\<forall>m\<in>set ?msgs. 0 \<le> time m)
        \<and> (\<forall>k<length (filter is_note_message ?msgs). \<not> raises (port ?p) (calls (port ?p) + k))"
    by (simp add: playing_example_good_port example_notes)
  with plain have "for_loop (+) ?p ?msgs =
      (?p\<lparr>port := (port ?p)\<lparr>calls := calls (port ?p) + length (filter is_note_message ?msgs),
                             sent := sent (port ?p) @ filter is_note_message ?msgs\<rparr>,
          current_position := foldl (+) (current_position ?p) (map time ?msgs)\<rparr>, Continue)"
    by blast
  then have pass: "sent (port (fst (for_loop (+) ?p ?msgs))) = sent (port ?p) @ [example_on, example_off]"
      "current_position (fst (for_loop (+) ?p ?msgs)) = 3 / 8"
    by (simp_all add: example_notes) (simp add: playing_example_good_port)
  have other: "\<not> is_note_message example_end"
    by (simp add: is_note_message_def example_end_def)
  with plain have kept: "port (fst (for_body (+) ?p example_end)) = port ?p" by blast
  from l(1-5) h looped broke reset_round p(1,2) pass other kept
  show ?thesis by (intro conjI)
qed

text \<open>
  C8. When \<open>is_looping\<close> is false the thread returns with fuel for one pass, whatever the
  port does, and \<open>is_playing\<close> is false when it has returned. Started playing on a loaded
  file, it does exactly this: one pass of the \<open>for\<close> loop over the sequence, then the sweep
  of \<open>stop\<close>. If nothing raises, the port has then received every note message of the
  sequence once, in order, followed by the 2048 note-offs, and the position has advanced
  by all delays, one after the other.
\<close>

theorem play_thread_one_pass_without_loop:
  assumes "\<not> is_looping p"
  shows "(\<exists>p' e. play_thread fadd (Suc n) p = Some (p', e) \<and> \<not> is_playing p')
   \<and> (\<forall>mf. is_playing p \<and> current_midi p = Some mf \<longrightarrow>
         play_thread fadd (Suc n) p = Some (stop (fst (for_loop fadd p (play_messages mf)))))
   \<and> (\<forall>mf. is_playing p \<and> current_midi p = Some mf \<and> 0 < tempo p
          \<and> (\<forall>m\<in>set (play_messages mf). 0 \<le> time m)
          \<and> (\<forall>k<length (filter is_note_message (play_messages mf)) + 2048.
                \<not> raises (port p) (calls (port p) + k))
      \<longrightarrow> play_thread fadd (Suc n) p =
            Some (p\<lparr>is_playing := False,
                    current_position := foldl fadd (current_position p) (map time (play_messages mf)),
                    port := (port p)
                      \<lparr>calls := calls (port p) + length (filter is_note_message (play_messages mf))
                                + 2048,
                       sent := sent (port p) @ filter is_note_message (play_messages mf)
                                @ all_notes_off\<rparr>\<rparr>,
                  None))"
proof (intro conjI allI impI)
  have "\<exists>r. while_loop fadd (Suc n) p = Some r"
  proof (cases "is_playing p")
    case False
    then show ?thesis by (simp add: while_loop_stopped)
  next
    case True
    show ?thesis
    proof (cases "current_midi p")
      case None
      with True show ?thesis by (simp add: while_loop_no_file)
    next
      case (Some mf)
      with True assms show ?thesis by (simp add: while_loop_one_pass)
    qed
  qed
  then obtain p1 e1 where "while_loop fadd (Suc n) p = Some (p1, e1)" by force
  then obtain r where "play_thread fadd (Suc n) p = Some r"
    by (cases e1) (simp_all add: play_thread_def)
  then obtain p' e where r: "play_thread fadd (Suc n) p = Some (p', e)" by (cases r) simp
  then have "\<not> is_playing p'" by (rule play_thread_leaves_stopped)
  with r show "\<exists>p' e. play_thread fadd (Suc n) p = Some (p', e) \<and> \<not> is_playing p'" by blast
next
  fix mf assume "is_playing p \<and> current_midi p = Some mf"
  with assms
  show "play_thread fadd (Suc n) p = Some (stop (fst (for_loop fadd p (play_messages mf))))"
    by (intro play_thread_one_pass) simp_all
next
  fix mf :: midi_file
  let ?msgs = "play_messages mf"
  let ?notes = "filter is_note_message ?msgs"
  assume a: "is_playing p \<and> current_midi p = Some mf \<and> 0 < tempo p
          \<and> (\<forall>m\<in>set ?msgs. 0 \<le> time m)
          \<and> (\<forall>k<length ?notes + 2048. \<not> raises (port p) (calls (port p) + k))"
  let ?p1 = "p\<lparr>port := (port p)\<lparr>calls := calls (port p) + length ?notes,
                               sent := sent (port p) @ ?notes\<rparr>,
               current_position := foldl fadd (current_position p) (map time ?msgs)\<rparr>"
  have "\<forall>k<length ?notes. \<not> raises (port p) (calls (port p) + k)"
    using a by simp
  with a assms have pass: "for_loop fadd p ?msgs = (?p1, Continue)"
    by (intro for_loop_plain_pass) blast+
  have "\<forall>k<2048. \<not> raises (port ?p1) (calls (port ?p1) + k)"
  proof (intro allI impI)
    fix k :: nat assume "k < 2048"
    then have "length ?notes + k < length ?notes + 2048" by simp
    with a have "\<not> raises (port p) (calls (port p) + (length ?notes + k))" by blast
    then show "\<not> raises (port ?p1) (calls (port ?p1) + k)" by (simp add: add.assoc)
  qed
  then have "stop ?p1 = (?p1\<lparr>is_playing := False,
                     port := (port ?p1)\<lparr>calls := calls (port ?p1) + 2048,
                                       sent := sent (port ?p1) @ all_notes_off\<rparr>\<rparr>, None)"
    by (rule stop_delivers)
  moreover have "play_thread fadd (Suc n) p = Some (stop (fst (for_loop fadd p ?msgs)))"
    using a assms by (intro play_thread_one_pass) simp_all
  ultimately show "play_thread fadd (Suc n) p =
            Some (p\<lparr>is_playing := False,
                    current_position := foldl fadd (current_position p) (map time ?msgs),
                    port := (port p)
                      \<lparr>calls := calls (port p) + length ?notes + 2048,
                       sent := sent (port p) @ ?notes @ all_notes_off\<rparr>\<rparr>,
                  None)"
    by (simp add: pass)
qed

theorem play_thread_one_pass_without_loop_witness:
  "\<not> is_looping (playing_example good_port)
   \<and> is_playing (playing_example good_port)
   \<and> current_midi (playing_example good_port) = Some example_song
   \<and> raises (port (playing_example good_port)) = (\<lambda>k. False)
   \<and> play_thread (+) (Suc 0) (playing_example good_port) =
       Some (\<lparr>current_midi = Some example_song, is_playing = False, is_looping = False,
              loop_start = 0, loop_end = Some 288, tempo = 1, current_position = 3 / 8,
              port = \<lparr>sent = all_notes_off @ [example_on, example_off] @ all_notes_off,
                       calls = 4098, raises = (\<lambda>k. False)\<rparr>\<rparr>, None)"
proof -
  let ?p = "playing_example good_port" and ?msgs = "play_messages example_song"
  have noloop: "\<not> is_looping ?p" by (simp add: playing_example_good_port)
  note one_pass = play_thread_one_pass_without_loop [OF noloop, of "(+)" 0]
  have pre: "is_playing ?p \<and> current_midi ?p = Some example_song \<and> 0 < tempo ?p
          \<and> (\<forall>m\<in>set ?msgs. 0 \<le> time m)
          \<and> (\<forall>k<length (filter is_note_message ?msgs) + 2048.
                \<not> raises (port ?p) (calls (port ?p) + k))"
    by (simp add: playing_example_good_port example_notes)
  with one_pass have "play_thread (+) (Suc 0) ?p =
            Some (?p\<lparr>is_playing := False,
                    current_position := foldl (+) (current_position ?p) (map time ?msgs),
                    port := (port ?p)
                      \<lparr>calls := calls (port ?p) + length (filter is_note_message ?msgs) + 2048,
                       sent := sent (port ?p) @ filter is_note_message ?msgs @ all_notes_off\<rparr>\<rparr>,
                  None)"
    by blast
  then have run: "play_thread (+) (Suc 0) ?p =
       Some (\<lparr>current_midi = Some example_song, is_playing = False, is_looping = False,
              loop_start = 0, loop_end = Some 288, tempo = 1, current_position = 3 / 8,
              port = \<lparr>sent = all_notes_off @ [example_on, example_off] @ all_notes_off,
                       calls = 4098, raises = (\<lambda>k. False)\<rparr>\<rparr>, None)"
    by (simp add: example_notes) (simp add: playing_example_good_port)
  have "raises (port ?p) = (\<lambda>k. False)" by (simp add: playing_example_good_port)
  with noloop pre run show ?thesis by (intro conjI) blast+
qed

subsection \<open>Looping\<close>

lemma for_loop_Continue_mono:
  assumes "\<forall>x\<in>F. \<forall>d. fadd x d \<in> F" "\<forall>x\<in>F. \<forall>d. 0 \<le> d \<longrightarrow> x \<le> fadd x d"
    and "\<forall>m\<in>set msgs. 0 \<le> time m" "current_position p \<in> F"
    and "for_loop fadd p msgs = (p', Continue)"
  shows "current_position p \<le> current_position p' \<and> current_position p' \<in> F"
  using assms(3-5)
proof (induction msgs arbitrary: p)
  case Nil
  then show ?case by simp
next
  case (Cons msg msgs)
  obtain q out where b: "for_body fadd p msg = (q, out)" by (cases "for_body fadd p msg")
  with Cons.prems(3) have out: "out = Continue" by (cases out) simp_all
  with b Cons.prems(3) have run: "for_loop fadd q msgs = (p', Continue)" by simp
  have pos: "current_position q = fadd (current_position p) (time msg)"
    using b out for_body_Continue_sent(2) by blast
  from Cons.prems(1) have rest: "\<forall>m\<in>set msgs. 0 \<le> time m" and now: "0 \<le> time msg"
    by simp_all
  have inF: "current_position q \<in> F"
    using assms(1) Cons.prems(2) pos by simp
  from rest inF run
  have "current_position q \<le> current_position p' \<and> current_position p' \<in> F"
    by (rule Cons.IH)
  moreover have "current_position p \<le> fadd (current_position p) (time msg)"
    using assms(2) Cons.prems(2) now by blast
  ultimately show ?case using pos by simp
qed

lemma for_loop_prefix_mono:
  assumes "\<forall>x\<in>F. \<forall>d. fadd x d \<in> F" "\<forall>x\<in>F. \<forall>d. 0 \<le> d \<longrightarrow> x \<le> fadd x d"
    and "\<forall>m\<in>set msgs. 0 \<le> time m" "current_position p \<in> F"
    and "j \<le> k" "snd (for_loop fadd p (take k msgs)) = Continue"
  shows "snd (for_loop fadd p (take j msgs)) = Continue
     \<and> current_position (fst (for_loop fadd p (take j msgs)))
         \<le> current_position (fst (for_loop fadd p (take k msgs)))"
proof -
  have split: "take k msgs = take j msgs @ drop j (take k msgs)"
    using assms(5) by (metis append_take_drop_id min.absorb1 take_take)
  obtain q out where pj: "for_loop fadd p (take j msgs) = (q, out)"
    by (cases "for_loop fadd p (take j msgs)")
  obtain r where pk: "for_loop fadd p (take k msgs) = (r, Continue)"
    using assms(6) by (cases "for_loop fadd p (take k msgs)") simp
  have "for_loop fadd p (take j msgs @ drop j (take k msgs)) = (r, Continue)"
    using pk split by simp
  with pj have out: "out = Continue"
    and rest: "for_loop fadd q (drop j (take k msgs)) = (r, Continue)"
    by (cases out; simp add: for_loop_append)+
  have "\<forall>m\<in>set (take j msgs). 0 \<le> time m"
    using assms(3) by (meson in_set_takeD)
  with assms(1,2,4) pj out have "current_position q \<in> F"
    using for_loop_Continue_mono [of F fadd "take j msgs" p q] by simp
  moreover have "\<forall>m\<in>set (drop j (take k msgs)). 0 \<le> time m"
    using assms(3) by (meson in_set_dropD in_set_takeD)
  ultimately have "current_position q \<le> current_position r"
    using assms(1,2) rest for_loop_Continue_mono [of F fadd "drop j (take k msgs)" q r] by simp
  with pj pk out show ?thesis by simp
qed

text \<open>A round that goes through: the message has been handed to the port first, and the
  loop region is tested on the position the addition has given.\<close>

lemma for_body_loop_check:
  assumes "for_body fadd p msg = (p', out)" "is_playing p" "\<forall>e. out \<noteq> Raised e"
  shows "port p' = (if is_note_message msg
                    then (port p)\<lparr>calls := Suc (calls (port p)), sent := sent (port p) @ [msg]\<rparr>
                    else port p)
     \<and> (if is_looping p \<and> (\<exists>le. loop_end p = Some le \<and> le \<le> fadd (current_position p) (time msg))
         then out = Broke \<and> current_position p' = loop_start p
         else out = Continue \<and> current_position p' = fadd (current_position p) (time msg))"
  using assms
  by (auto simp: for_body_def send_def is_note_message_def Let_def
           split: if_splits option.splits prod.splits)

lemma for_loop_Broke_reset:
  assumes "is_playing p" "for_loop fadd p msgs = (p', Broke)"
  shows "is_looping p \<and> current_position p' = loop_start p"
  using assms
proof (induction msgs arbitrary: p)
  case Nil
  then show ?case by simp
next
  case (Cons msg msgs)
  obtain q out where b: "for_body fadd p msg = (q, out)" by (cases "for_body fadd p msg")
  have f: "is_playing q = is_playing p" "is_looping q = is_looping p" "loop_start q = loop_start p"
    using for_body_frame [of fadd p msg] b by simp_all
  show ?case
  proof (cases out)
    case Continue
    with b Cons.prems(2) have "for_loop fadd q msgs = (p', Broke)" by simp
    with Cons.IH [of q] Cons.prems(1) f show ?thesis by simp
  next
    case Broke
    with b Cons.prems(2) have "q = p'" by simp
    moreover from b Broke Cons.prems(1)
    have "is_looping p \<and> current_position q = loop_start p"
      using for_body_loop_check [of fadd p msg q out] by (auto split: if_splits)
    ultimately show ?thesis by simp
  next
    case (Raised e)
    with b Cons.prems(2) show ?thesis by simp
  qed
qed

lemma while_loop_next_pass:
  assumes "is_playing p" "is_looping p" "current_midi p = Some mf"
  shows "while_loop fadd (Suc n) p =
     (case for_loop fadd p (play_messages mf) of
        (p', Raised e) \<Rightarrow> Some (p', Some e)
      | (p', _) \<Rightarrow> while_loop fadd n p')"
proof -
  obtain p' out where run: "for_loop fadd p (play_messages mf) = (p', out)"
    by (cases "for_loop fadd p (play_messages mf)")
  have "is_looping p'"
    using assms(2) run for_loop_frame [of fadd p "play_messages mf"] by simp
  with assms run show ?thesis
    by (subst while_loop.simps) (simp split: outcome.split)
qed

text \<open>The tempo is positive after \<open>__init__\<close> and after \<open>set_tempo\<close>, and nothing else
  changes it.\<close>

lemma tempo_play: "tempo (fst (fst (play p start_pos))) = tempo p"
  by (simp add: play_def stop_eq Let_def split: option.split)

lemma tempo_stays_positive:
  "0 < tempo (init prt)"
  "0 < tempo (set_tempo p t)"
  "tempo (set_loop_points p start end') = tempo p"
  "tempo (toggle_loop p) = tempo p"
  "tempo (fst (stop p)) = tempo p"
  "tempo (fst (load_midi files p filepath)) = tempo p"
  "tempo (fst (fst (play p start_pos))) = tempo p"
  "tempo (fst (for_loop fadd p msgs)) = tempo p"
  by (simp_all add: init_def set_tempo_def set_loop_points_def toggle_loop_def load_midi_eq
        tempo_play for_loop_frame max_def split: option.split)

text \<open>
  C6. Let \<open>F\<close> be a set of numbers that holds the position at the start of the pass and
  every sum the addition gives from a number of \<open>F\<close>, and on which the addition never
  gives less than its first argument when the second is not negative (the finite binary64
  numbers with their rounded addition are such a set); let no delay be negative. Then
  within a pass of the \<open>for\<close> loop the position never decreases from one message to a
  later one. For any addition: a round that goes through
  has first handed its message to the port (if it is a note message); then, if
  \<open>is_looping\<close> holds and the new position has reached \<open>loop_end\<close>, the position is
  \<open>loop_start\<close> and the pass is left, and otherwise the position is the sum the addition
  gave and the pass goes on. A pass left in that way is followed by a pass over the whole
  sequence, from its first message: nothing is skipped to reach \<open>loop_start\<close>.
\<close>

theorem position_in_pass_and_loop_restart:
  "(current_position p \<in> F \<and> (\<forall>x\<in>F. \<forall>d. fadd x d \<in> F)
      \<and> (\<forall>x\<in>F. \<forall>d. 0 \<le> d \<longrightarrow> x \<le> fadd x d) \<and> (\<forall>m\<in>set msgs. 0 \<le> time m) \<longrightarrow>
      (\<forall>j k. j \<le> k \<and> snd (for_loop fadd p (take k msgs)) = Continue \<longrightarrow>
           snd (for_loop fadd p (take j msgs)) = Continue
           \<and> current_position (fst (for_loop fadd p (take j msgs)))
               \<le> current_position (fst (for_loop fadd p (take k msgs)))))
   \<and> (\<forall>msg p' out. for_body fadd p msg = (p', out) \<and> is_playing p \<and> (\<forall>e. out \<noteq> Raised e) \<longrightarrow>
         port p' = (if is_note_message msg
                    then (port p)\<lparr>calls := Suc (calls (port p)), sent := sent (port p) @ [msg]\<rparr>
                    else port p)
         \<and> (if is_looping p
                \<and> (\<exists>le. loop_end p = Some le \<and> le \<le> fadd (current_position p) (time msg))
             then out = Broke \<and> current_position p' = loop_start p
             else out = Continue \<and> current_position p' = fadd (current_position p) (time msg)))
   \<and> (\<forall>mf p'. is_playing p \<and> current_midi p = Some mf
          \<and> for_loop fadd p (play_messages mf) = (p', Broke) \<longrightarrow>
         is_looping p \<and> current_position p' = loop_start p
         \<and> while_loop fadd (Suc (Suc n)) p =
             (case for_loop fadd p' (play_messages mf) of
                (p'', Raised e) \<Rightarrow> Some (p'', Some e)
              | (p'', _) \<Rightarrow> while_loop fadd n p''))"
proof (intro conjI allI impI)
  fix j k
  assume "current_position p \<in> F \<and> (\<forall>x\<in>F. \<forall>d. fadd x d \<in> F)
      \<and> (\<forall>x\<in>F. \<forall>d. 0 \<le> d \<longrightarrow> x \<le> fadd x d) \<and> (\<forall>m\<in>set msgs. 0 \<le> time m)"
    and "j \<le> k \<and> snd (for_loop fadd p (take k msgs)) = Continue"
  then have "snd (for_loop fadd p (take j msgs)) = Continue
     \<and> current_position (fst (for_loop fadd p (take j msgs)))
         \<le> current_position (fst (for_loop fadd p (take k msgs)))"
    by (intro for_loop_prefix_mono [of F]) blast+
  then show "snd (for_loop fadd p (take j msgs)) = Continue"
    and "current_position (fst (for_loop fadd p (take j msgs)))
         \<le> current_position (fst (for_loop fadd p (take k msgs)))"
    by simp_all
next
  fix msg p' out
  assume a: "for_body fadd p msg = (p', out) \<and> is_playing p \<and> (\<forall>e. out \<noteq> Raised e)"
  have "port p' = (if is_note_message msg
                    then (port p)\<lparr>calls := Suc (calls (port p)), sent := sent (port p) @ [msg]\<rparr>
                    else port p)
     \<and> (if is_looping p \<and> (\<exists>le. loop_end p = Some le \<and> le \<le> fadd (current_position p) (time msg))
         then out = Broke \<and> current_position p' = loop_start p
         else out = Continue \<and> current_position p' = fadd (current_position p) (time msg))"
    using a by (intro for_body_loop_check) simp_all
  then show "port p' = (if is_note_message msg
                    then (port p)\<lparr>calls := Suc (calls (port p)), sent := sent (port p) @ [msg]\<rparr>
                    else port p)"
    and "if is_looping p \<and> (\<exists>le. loop_end p = Some le \<and> le \<le> fadd (current_position p) (time msg))
         then out = Broke \<and> current_position p' = loop_start p
         else out = Continue \<and> current_position p' = fadd (current_position p) (time msg)"
    by blast+
next
  fix mf p'
  assume a: "is_playing p \<and> current_midi p = Some mf
      \<and> for_loop fadd p (play_messages mf) = (p', Broke)"
  then have reset: "is_looping p \<and> current_position p' = loop_start p"
    by (intro for_loop_Broke_reset [of p fadd "play_messages mf"]) simp_all
  then show "is_looping p" and "current_position p' = loop_start p" by simp_all
  have frame: "is_playing p'" "is_looping p'" "current_midi p' = Some mf"
    using a reset for_loop_frame [of fadd p "play_messages mf"] by simp_all
  have "while_loop fadd (Suc (Suc n)) p = while_loop fadd (Suc n) p'"
    using a reset by (simp add: while_loop_next_pass)
  also have "\<dots> = (case for_loop fadd p' (play_messages mf) of
                (p'', Raised e) \<Rightarrow> Some (p'', Some e)
              | (p'', _) \<Rightarrow> while_loop fadd n p'')"
    using frame by (rule while_loop_next_pass)
  finally show "while_loop fadd (Suc (Suc n)) p =
             (case for_loop fadd p' (play_messages mf) of
                (p'', Raised e) \<Rightarrow> Some (p'', Some e)
              | (p'', _) \<Rightarrow> while_loop fadd n p'')" .
qed

theorem position_in_pass_and_loop_restart_witness:
  "is_playing (looping_example good_port)
   \<and> is_looping (looping_example good_port)
   \<and> current_midi (looping_example good_port) = Some example_song
   \<and> loop_start (looping_example good_port) = 5 / 32
   \<and> loop_end (looping_example good_port) = Some (5 / 16)
   \<and> snd (for_loop (+) (looping_example good_port) (take 1 (play_messages example_song)))
       = Continue
   \<and> current_position (fst (for_loop (+) (looping_example good_port)
                               (take 0 (play_messages example_song))))
       \<le> current_position (fst (for_loop (+) (looping_example good_port)
                                 (take 1 (play_messages example_song))))
   \<and> snd (for_body (+) (looping_example good_port) example_on) = Continue
   \<and> current_position (fst (for_body (+) (looping_example good_port) example_on)) = 1 / 8
   \<and> sent (port (fst (for_body (+) (looping_example good_port) example_on)))
       = all_notes_off @ [example_on]
   \<and> snd (for_body (+) (fst (for_body (+) (looping_example good_port) example_on)) example_off)
       = Broke
   \<and> current_position
         (fst (for_body (+) (fst (for_body (+) (looping_example good_port) example_on)) example_off))
       = 5 / 32
   \<and> sent (port
         (fst (for_body (+) (fst (for_body (+) (looping_example good_port) example_on)) example_off)))
       = all_notes_off @ [example_on, example_off]
   \<and> snd (for_loop (+) (looping_example good_port) (play_messages example_song)) = Broke
   \<and> current_position (fst (for_loop (+) (looping_example good_port) (play_messages example_song)))
       = loop_start (looping_example good_port)
   \<and> sent (port (fst (for_loop (+)
                         (fst (for_loop (+) (looping_example good_port) (play_messages example_song)))
                         (play_messages example_song))))
       = all_notes_off @ [example_on, example_off, example_on, example_off]
   \<and> while_loop (+) (Suc (Suc 0)) (looping_example good_port) = None"
proof -
  let ?l = "looping_example good_port"
  let ?msgs = "play_messages example_song"
  let ?q = "fst (for_body (+) ?l example_on)"
  let ?r = "fst (for_loop (+) ?l ?msgs)"
  note at_start = position_in_pass_and_loop_restart [of ?l UNIV "(+)" ?msgs 0]
  note at_second = position_in_pass_and_loop_restart [of ?q UNIV "(+)" ?msgs 0]
  have l: "is_playing ?l" "is_looping ?l" "current_midi ?l = Some example_song"
    "loop_start ?l = 5 / 32" "loop_end ?l = Some (5 / 16)" "current_position ?l = 0"
    "sent (port ?l) = all_notes_off" "calls (port ?l) = 2048"
    by (simp_all add: looping_example_good_port)
  have arith: "current_position ?l \<in> UNIV \<and> (\<forall>x\<in>UNIV. \<forall>d::rat. x + d \<in> UNIV)
      \<and> (\<forall>x\<in>UNIV. \<forall>d::rat. 0 \<le> d \<longrightarrow> x \<le> x + d) \<and> (\<forall>m\<in>set ?msgs. 0 \<le> time m)"
    by (simp add: example_notes)
  have c1: "snd (for_loop (+) ?l (take 1 ?msgs)) = Continue"
    by (simp add: example_play_messages looping_example_rounds)
  have "(0::nat) \<le> 1" by simp
  with at_start arith c1 have mono:
    "current_position (fst (for_loop (+) ?l (take 0 ?msgs)))
       \<le> current_position (fst (for_loop (+) ?l (take 1 ?msgs)))"
    by blast
  have b1: "for_body (+) ?l example_on = (?q, Continue)"
    by (simp add: looping_example_rounds)
  from at_start b1 l(1)
  have round1: "port ?q = (if is_note_message example_on
                    then (port ?l)\<lparr>calls := Suc (calls (port ?l)),
                                     sent := sent (port ?l) @ [example_on]\<rparr>
                    else port ?l)"
    and test1: "if is_looping ?l
            \<and> (\<exists>le. loop_end ?l = Some le \<and> le \<le> current_position ?l + time example_on)
          then Continue = Broke \<and> current_position ?q = loop_start ?l
          else Continue = Continue
            \<and> current_position ?q = current_position ?l + time example_on"
    by blast+
  from test1 have "current_position ?q = current_position ?l + time example_on"
    by (simp split: if_splits)
  then have pos1: "current_position ?q = 1 / 8"
    by (simp add: l example_on_def)
  have note_on: "is_note_message example_on" and note_off: "is_note_message example_off"
    by (simp_all add: is_note_message_def example_on_def example_off_def)
  from round1 note_on have sent1: "sent (port ?q) = all_notes_off @ [example_on]"
    by (simp add: l)
  have b2: "for_body (+) ?q example_off = (fst (for_body (+) ?q example_off), Broke)"
    and q: "is_playing ?q" "loop_start ?q = 5 / 32"
    by (simp_all add: looping_example_rounds)
  from at_second b2 q(1)
  have round2: "port (fst (for_body (+) ?q example_off)) = (if is_note_message example_off
                    then (port ?q)\<lparr>calls := Suc (calls (port ?q)),
                                     sent := sent (port ?q) @ [example_off]\<rparr>
                    else port ?q)"
    and test2: "if is_looping ?q
            \<and> (\<exists>le. loop_end ?q = Some le \<and> le \<le> current_position ?q + time example_off)
          then Broke = Broke \<and> current_position (fst (for_body (+) ?q example_off)) = loop_start ?q
          else Broke = Continue
            \<and> current_position (fst (for_body (+) ?q example_off))
                = current_position ?q + time example_off"
    by blast+
  from test2 have "current_position (fst (for_body (+) ?q example_off)) = loop_start ?q"
    by (simp split: if_splits)
  with q(2) have pos2: "current_position (fst (for_body (+) ?q example_off)) = 5 / 32"
    by simp
  from round2 note_off sent1
  have sent2: "sent (port (fst (for_body (+) ?q example_off)))
      = all_notes_off @ [example_on, example_off]"
    by simp
  have pass: "for_loop (+) ?l ?msgs = (?r, Broke)"
    by (simp add: looping_example_first_pass)
  with at_start l(1,3) have restart: "current_position ?r = loop_start ?l"
    "while_loop (+) (Suc (Suc 0)) ?l =
       (case for_loop (+) ?r ?msgs of
          (p'', Raised e) \<Rightarrow> Some (p'', Some e)
        | (p'', _) \<Rightarrow> while_loop (+) 0 p'')"
    by blast+
  have second: "for_loop (+) ?r ?msgs =
     (\<lparr>current_midi = Some example_song, is_playing = True, is_looping = True,
       loop_start = 5 / 32, loop_end = Some (5 / 16), tempo = 1, current_position = 5 / 32,
       port = \<lparr>sent = all_notes_off @ [example_on, example_off, example_on, example_off],
                calls = 2052, raises = (\<lambda>k. False)\<rparr>\<rparr>,
      Broke)"
    by (simp add: looping_example_first_pass looping_example_second_pass)
  have out_of_fuel: "while_loop (+) (Suc (Suc 0)) ?l = None"
    by (simp add: restart(2) second) (simp add: while_loop.simps)
  have sent_twice: "sent (port (fst (for_loop (+) ?r ?msgs)))
      = all_notes_off @ [example_on, example_off, example_on, example_off]"
    by (simp add: second)
  have "snd (for_body (+) ?l example_on) = Continue"
    "snd (for_body (+) ?q example_off) = Broke"
    "snd (for_loop (+) ?l ?msgs) = Broke"
    by (simp_all add: looping_example_rounds looping_example_first_pass)
  with l(1-5) c1 mono pos1 sent1 pos2 sent2 restart(1) sent_twice out_of_fuel
  show ?thesis by (intro conjI)
qed

subsection \<open>Errors of the port during dispatch\<close>

lemma nth_pass_while:
  "nth_pass fadd k p = Some q \<Longrightarrow> while_loop fadd (k + n) p = while_loop fadd n q"
proof (induction k arbitrary: p)
  case 0
  then show ?case by (simp split: if_splits)
next
  case (Suc k)
  from Suc.prems have playing: "is_playing p" by (simp split: if_splits)
  with Suc.prems obtain mf where mf: "current_midi p = Some mf"
    by (cases "current_midi p") simp_all
  obtain p' out where run: "for_loop fadd p (play_messages mf) = (p', out)"
    by (cases "for_loop fadd p (play_messages mf)")
  from Suc.prems playing mf run
  have ok: "\<forall>e. out \<noteq> Raised e" "is_looping p'" "nth_pass fadd k p' = Some q"
    by (cases out; simp split: if_splits)+
  from playing mf run ok(1,2)
  have "while_loop fadd (Suc k + n) p = while_loop fadd (k + n) p'"
    by (subst while_loop.simps) (cases out; simp)
  also have "\<dots> = while_loop fadd n q" using ok(3) by (rule Suc.IH)
  finally show ?case .
qed

lemma nth_pass_playing: "nth_pass fadd k p = Some q \<Longrightarrow> is_playing q"
proof (induction k arbitrary: p)
  case 0
  then show ?case by (simp split: if_splits)
next
  case (Suc k)
  then show ?case
    by (auto split: if_splits option.splits prod.splits outcome.splits)
qed

lemma for_body_send_raises:
  assumes "is_playing p" "0 < tempo p" "0 \<le> time msg" "is_note_message msg"
    and "raises (port p) (calls (port p))"
  shows "for_body fadd p msg
     = (p\<lparr>port := (port p)\<lparr>calls := Suc (calls (port p))\<rparr>\<rparr>, Raised PortError)"
proof -
  from assms(2,3) have "\<not> time msg * (1 / tempo p) < 0"
    by (simp add: not_less zero_le_mult_iff)
  with assms show ?thesis
    by (simp add: for_body_def send_def is_note_message_def)
qed

lemma while_loop_first_pass_raises:
  assumes "is_playing p" "current_midi p = Some mf"
    and "for_loop fadd p (play_messages mf) = (p1, Raised e)"
  shows "while_loop fadd (Suc n) p = Some (p1, Some e)"
  using assms by (subst while_loop.simps) simp

text \<open>How an exception of \<open>send\<close> during dispatch leaves the loop: pass number \<open>k\<close> has
  handled the messages \<open>pre\<close>, and the port raises on the note message that follows.\<close>

lemma dispatch_error_leaves_loop:
  assumes "nth_pass fadd k p = Some q" "current_midi q = Some mf"
    and "play_messages mf = pre @ msg # post" "for_loop fadd q pre = (r, Continue)"
    and "is_note_message msg" "0 < tempo r" "0 \<le> time msg"
    and "raises (port r) (calls (port r))"
  shows "while_loop fadd (Suc (k + n)) p =
     Some (r\<lparr>port := (port r)\<lparr>calls := Suc (calls (port r))\<rparr>\<rparr>, Some PortError)"
proof -
  have q: "is_playing q" using assms(1) by (rule nth_pass_playing)
  then have "is_playing r"
    using assms(4) for_loop_frame [of fadd q pre] by simp
  with assms(5-8)
  have "for_body fadd r msg
      = (r\<lparr>port := (port r)\<lparr>calls := Suc (calls (port r))\<rparr>\<rparr>, Raised PortError)"
    by (intro for_body_send_raises)
  then have "for_loop fadd r (msg # post) =
      (r\<lparr>port := (port r)\<lparr>calls := Suc (calls (port r))\<rparr>\<rparr>, Raised PortError)"
    by simp
  with assms(3,4) have "for_loop fadd q (play_messages mf) =
      (r\<lparr>port := (port r)\<lparr>calls := Suc (calls (port r))\<rparr>\<rparr>, Raised PortError)"
    by (simp add: for_loop_append)
  with q assms(2) have "while_loop fadd (Suc n) q =
      Some (r\<lparr>port := (port r)\<lparr>calls := Suc (calls (port r))\<rparr>\<rparr>, Some PortError)"
    by (rule while_loop_first_pass_raises)
  moreover have "while_loop fadd (k + Suc n) p = while_loop fadd (Suc n) q"
    using assms(1) by (rule nth_pass_while)
  ultimately show ?thesis by simp
qed

lemma playing_example_unplugged:
  "playing_example (unplugged_at 2048) =
     \<lparr>current_midi = Some example_song, is_playing = True, is_looping = False, loop_start = 0,
      loop_end = Some 288, tempo = 1, current_position = 0,
      port = \<lparr>sent = all_notes_off, calls = 2048, raises = (\<lambda>k. 2048 \<le> k)\<rparr>\<rparr>"
  using playing_example_eq [of "unplugged_at 2048"] by (simp add: unplugged_at_def init_def)

lemma playing_example_hiccup:
  "playing_example (hiccup_at 2048) =
     \<lparr>current_midi = Some example_song, is_playing = True, is_looping = False, loop_start = 0,
      loop_end = Some 288, tempo = 1, current_position = 0,
      port = \<lparr>sent = all_notes_off, calls = 2048, raises = (\<lambda>k. k = 2048)\<rparr>\<rparr>"
  using playing_example_eq [of "hiccup_at 2048"] by (simp add: hiccup_at_def init_def)

lemma looping_example_hiccup:
  "looping_example (hiccup_at 2050) =
     \<lparr>current_midi = Some example_song, is_playing = True, is_looping = True,
      loop_start = 5 / 32, loop_end = Some (5 / 16), tempo = 1, current_position = 0,
      port = \<lparr>sent = all_notes_off, calls = 2048, raises = (\<lambda>k. k = 2050)\<rparr>\<rparr>"
  using playing_example_eq [of "hiccup_at 2050"]
  by (simp add: looping_example_def toggle_loop_def set_loop_points_def hiccup_at_def init_def)

lemma looping_example_hiccup_second_pass:
  "nth_pass (+) (Suc 0) (looping_example (hiccup_at 2050)) =
     Some \<lparr>current_midi = Some example_song, is_playing = True, is_looping = True,
           loop_start = 5 / 32, loop_end = Some (5 / 16), tempo = 1, current_position = 5 / 32,
           port = \<lparr>sent = all_notes_off @ [example_on, example_off], calls = 2050,
                    raises = (\<lambda>k. k = 2050)\<rparr>\<rparr>"
proof -
  have "for_loop (+) (looping_example (hiccup_at 2050)) (play_messages example_song) =
     (\<lparr>current_midi = Some example_song, is_playing = True, is_looping = True,
           loop_start = 5 / 32, loop_end = Some (5 / 16), tempo = 1, current_position = 5 / 32,
           port = \<lparr>sent = all_notes_off @ [example_on, example_off], calls = 2050,
                    raises = (\<lambda>k. k = 2050)\<rparr>\<rparr>, Broke)"
    by (simp add: looping_example_hiccup example_play_messages for_body_def send_def
          example_on_def example_off_def)
  then show ?thesis by (simp add: looping_example_hiccup)
qed

text \<open>
  C2, as stated, fails in its last part: \<open>stop\<close> does not catch what \<open>send\<close> raises, so
  an exception of the sweep ends the sweep and leaves the thread. With a device unplugged
  after the file was loaded, the first note-on raises, the \<open>except\<close> clause clears
  \<open>is_playing\<close>, and the first note-off of the sweep raises again: no note-off is
  delivered and the thread ends with that exception.
\<close>

theorem cleanup_sweep_raises_on_unplugged_port:
  "play_thread (+) (Suc 0) (playing_example (unplugged_at 2048)) =
     Some (\<lparr>current_midi = Some example_song, is_playing = False, is_looping = False,
            loop_start = 0, loop_end = Some 288, tempo = 1, current_position = 0,
            port = \<lparr>sent = all_notes_off, calls = 2050, raises = (\<lambda>k. 2048 \<le> k)\<rparr>\<rparr>,
           Some PortError)"
proof -
  have "for_loop (+) (playing_example (unplugged_at 2048)) (play_messages example_song) =
     (\<lparr>current_midi = Some example_song, is_playing = True, is_looping = False,
            loop_start = 0, loop_end = Some 288, tempo = 1, current_position = 0,
            port = \<lparr>sent = all_notes_off, calls = 2049, raises = (\<lambda>k. 2048 \<le> k)\<rparr>\<rparr>,
      Raised PortError)"
    by (simp add: playing_example_unplugged example_play_messages for_body_def send_def
          example_on_def)
  then have "while_loop (+) (Suc 0) (playing_example (unplugged_at 2048)) =
     Some (\<lparr>current_midi = Some example_song, is_playing = True, is_looping = False,
            loop_start = 0, loop_end = Some 288, tempo = 1, current_position = 0,
            port = \<lparr>sent = all_notes_off, calls = 2049, raises = (\<lambda>k. 2048 \<le> k)\<rparr>\<rparr>,
           Some PortError)"
    by (intro while_loop_first_pass_raises [where mf = example_song])
       (simp_all add: playing_example_unplugged)
  then show ?thesis by (simp add: play_thread_def stop_aborts)
qed

text \<open>
  C2, amended. Let the port raise on a note message during dispatch: in pass number \<open>k\<close>
  of the loop, after the messages \<open>pre\<close> of the sequence have been handled. Then the thread
  returns (any fuel above \<open>k\<close> suffices), \<open>is_playing\<close> is false, and the sweep of \<open>stop\<close>
  has run on the port as the failed call left it. If the port raises on none of the 2048
  calls of the sweep, every note-off is delivered and the thread ends normally. An exception
  of the sweep is not caught: if call number \<open>j\<close> of the sweep is the first to raise, the
  first \<open>j\<close> note-offs have been delivered and the thread ends with that exception.
\<close>

theorem dispatch_error_runs_cleanup:
  assumes "nth_pass fadd k p = Some q" "current_midi q = Some mf"
    and "play_messages mf = pre @ msg # post" "for_loop fadd q pre = (r, Continue)"
    and "is_note_message msg" "0 < tempo r" "0 \<le> time msg"
    and "raises (port r) (calls (port r))"
  shows "play_thread fadd (Suc (k + n)) p
           = Some (stop (r\<lparr>port := (port r)\<lparr>calls := Suc (calls (port r))\<rparr>\<rparr>))
   \<and> (\<exists>p' e. play_thread fadd (Suc (k + n)) p = Some (p', e) \<and> \<not> is_playing p')
   \<and> ((\<forall>j<2048. \<not> raises (port r) (Suc (calls (port r)) + j)) \<longrightarrow>
         play_thread fadd (Suc (k + n)) p =
           Some (r\<lparr>is_playing := False,
                   port := (port r)\<lparr>calls := calls (port r) + 2049,
                                     sent := sent (port r) @ all_notes_off\<rparr>\<rparr>, None))
   \<and> (\<forall>j<2048. (\<forall>i<j. \<not> raises (port r) (Suc (calls (port r)) + i))
                  \<and> raises (port r) (Suc (calls (port r)) + j) \<longrightarrow>
         play_thread fadd (Suc (k + n)) p =
           Some (r\<lparr>is_playing := False,
                   port := (port r)\<lparr>calls := calls (port r) + Suc (Suc j),
                                     sent := sent (port r) @ take j all_notes_off\<rparr>\<rparr>,
                 Some PortError))"
proof -
  let ?r = "r\<lparr>port := (port r)\<lparr>calls := Suc (calls (port r))\<rparr>\<rparr>"
  have "while_loop fadd (Suc (k + n)) p = Some (?r, Some PortError)"
    using assms by (rule dispatch_error_leaves_loop)
  then have thread: "play_thread fadd (Suc (k + n)) p = Some (stop ?r)"
    by (simp add: play_thread_def stop_is_playing_irrelevant)
  have stopped: "\<exists>p' e. play_thread fadd (Suc (k + n)) p = Some (p', e) \<and> \<not> is_playing p'"
  proof -
    have "play_thread fadd (Suc (k + n)) p = Some (fst (stop ?r), snd (stop ?r))"
      using thread by simp
    moreover have "\<not> is_playing (fst (stop ?r))" by simp
    ultimately show ?thesis by blast
  qed
  have whole: "play_thread fadd (Suc (k + n)) p =
           Some (r\<lparr>is_playing := False,
                   port := (port r)\<lparr>calls := calls (port r) + 2049,
                                     sent := sent (port r) @ all_notes_off\<rparr>\<rparr>, None)"
    if "\<forall>j<2048. \<not> raises (port r) (Suc (calls (port r)) + j)"
  proof -
    from that have "\<forall>j<2048. \<not> raises (port ?r) (calls (port ?r) + j)" by simp
    then have "stop ?r = (?r\<lparr>is_playing := False,
                     port := (port ?r)\<lparr>calls := calls (port ?r) + 2048,
                                       sent := sent (port ?r) @ all_notes_off\<rparr>\<rparr>, None)"
      by (rule stop_delivers)
    with thread show ?thesis by simp
  qed
  have part: "play_thread fadd (Suc (k + n)) p =
           Some (r\<lparr>is_playing := False,
                   port := (port r)\<lparr>calls := calls (port r) + Suc (Suc j),
                                     sent := sent (port r) @ take j all_notes_off\<rparr>\<rparr>,
                 Some PortError)"
    if "j < 2048" and "(\<forall>i<j. \<not> raises (port r) (Suc (calls (port r)) + i))
                  \<and> raises (port r) (Suc (calls (port r)) + j)" for j
  proof -
    from that(2) have "\<forall>i<j. \<not> raises (port ?r) (calls (port ?r) + i)"
      and "raises (port ?r) (calls (port ?r) + j)"
      by simp_all
    with that(1) have "stop ?r = (?r\<lparr>is_playing := False,
                     port := (port ?r)\<lparr>calls := calls (port ?r) + Suc j,
                                       sent := sent (port ?r) @ take j all_notes_off\<rparr>\<rparr>,
                   Some PortError)"
      by (intro stop_aborts_at)
    with thread show ?thesis by simp
  qed
  from thread stopped whole part show ?thesis by blast
qed

theorem dispatch_error_runs_cleanup_witness:
  "nth_pass (+) 0 (playing_example (hiccup_at 2048)) = Some (playing_example (hiccup_at 2048))
   \<and> raises (port (playing_example (hiccup_at 2048))) = (\<lambda>k. k = 2048)
   \<and> calls (port (playing_example (hiccup_at 2048))) = 2048
   \<and> play_thread (+) (Suc 0) (playing_example (hiccup_at 2048)) =
     Some (\<lparr>current_midi = Some example_song, is_playing = False, is_looping = False,
            loop_start = 0, loop_end = Some 288, tempo = 1, current_position = 0,
            port = \<lparr>sent = all_notes_off @ all_notes_off, calls = 4097,
                     raises = (\<lambda>k. k = 2048)\<rparr>\<rparr>,
           None)
   \<and> play_thread (+) (Suc (Suc 0)) (looping_example (hiccup_at 2050)) =
     Some (\<lparr>current_midi = Some example_song, is_playing = False, is_looping = True,
            loop_start = 5 / 32, loop_end = Some (5 / 16), tempo = 1, current_position = 5 / 32,
            port = \<lparr>sent = all_notes_off @ [example_on, example_off] @ all_notes_off,
                     calls = 4099, raises = (\<lambda>k. k = 2050)\<rparr>\<rparr>,
           None)
   \<and> play_thread (+) (Suc 0) (playing_example (unplugged_at 2048)) =
     Some (\<lparr>current_midi = Some example_song, is_playing = False, is_looping = False,
            loop_start = 0, loop_end = Some 288, tempo = 1, current_position = 0,
            port = \<lparr>sent = all_notes_off, calls = 2050, raises = (\<lambda>k. 2048 \<le> k)\<rparr>\<rparr>,
           Some PortError)"
proof -
  let ?h = "playing_example (hiccup_at 2048)"
  let ?l = "looping_example (hiccup_at 2050)"
  let ?u = "playing_example (unplugged_at 2048)"
  let ?q = "\<lparr>current_midi = Some example_song, is_playing = True, is_looping = True,
           loop_start = 5 / 32, loop_end = Some (5 / 16), tempo = 1, current_position = 5 / 32,
           port = \<lparr>sent = all_notes_off @ [example_on, example_off], calls = 2050,
                    raises = (\<lambda>k. k = 2050)\<rparr>\<rparr>"
  have song: "play_messages example_song = [] @ example_on # [example_off, example_end]"
    by (simp add: example_play_messages)
  have on: "is_note_message example_on" "0 \<le> time example_on"
    by (simp_all add: is_note_message_def example_on_def)
  have h: "nth_pass (+) 0 ?h = Some ?h" "current_midi ?h = Some example_song"
    "for_loop (+) ?h [] = (?h, Continue)" "0 < tempo ?h" "raises (port ?h) (calls (port ?h))"
    "raises (port ?h) = (\<lambda>k. k = 2048)" "calls (port ?h) = 2048"
    by (simp_all add: playing_example_hiccup)
  note first_pass =
    dispatch_error_runs_cleanup [OF h(1) h(2) song h(3) on(1) h(4) on(2) h(5), of 0]
  have "\<forall>j<2048. \<not> raises (port ?h) (Suc (calls (port ?h)) + j)"
    by (simp add: h(6,7))
  with first_pass have "play_thread (+) (Suc (0 + 0)) ?h =
           Some (?h\<lparr>is_playing := False,
                   port := (port ?h)\<lparr>calls := calls (port ?h) + 2049,
                                     sent := sent (port ?h) @ all_notes_off\<rparr>\<rparr>, None)"
    by blast
  then have run_h: "play_thread (+) (Suc 0) ?h =
     Some (\<lparr>current_midi = Some example_song, is_playing = False, is_looping = False,
            loop_start = 0, loop_end = Some 288, tempo = 1, current_position = 0,
            port = \<lparr>sent = all_notes_off @ all_notes_off, calls = 4097,
                     raises = (\<lambda>k. k = 2048)\<rparr>\<rparr>,
           None)"
    by (simp add: playing_example_hiccup)
  have l1: "nth_pass (+) (Suc 0) ?l = Some ?q"
    by (rule looping_example_hiccup_second_pass)
  have l: "current_midi ?q = Some example_song"
    "for_loop (+) ?q [] = (?q, Continue)" "0 < tempo ?q" "raises (port ?q) (calls (port ?q))"
    by simp_all
  note second_pass =
    dispatch_error_runs_cleanup [OF l1 l(1) song l(2) on(1) l(3) on(2) l(4), of 0]
  have "\<forall>j<2048. \<not> raises (port ?q) (Suc (calls (port ?q)) + j)" by simp
  with second_pass have "play_thread (+) (Suc (Suc 0 + 0)) ?l =
           Some (?q\<lparr>is_playing := False,
                   port := (port ?q)\<lparr>calls := calls (port ?q) + 2049,
                                     sent := sent (port ?q) @ all_notes_off\<rparr>\<rparr>, None)"
    by blast
  then have run_l: "play_thread (+) (Suc (Suc 0)) ?l =
     Some (\<lparr>current_midi = Some example_song, is_playing = False, is_looping = True,
            loop_start = 5 / 32, loop_end = Some (5 / 16), tempo = 1, current_position = 5 / 32,
            port = \<lparr>sent = all_notes_off @ [example_on, example_off] @ all_notes_off,
                     calls = 4099, raises = (\<lambda>k. k = 2050)\<rparr>\<rparr>,
           None)"
    by simp
  have u: "nth_pass (+) 0 ?u = Some ?u" "current_midi ?u = Some example_song"
    "for_loop (+) ?u [] = (?u, Continue)" "0 < tempo ?u" "raises (port ?u) (calls (port ?u))"
    "raises (port ?u) = (\<lambda>k. 2048 \<le> k)" "calls (port ?u) = 2048"
    by (simp_all add: playing_example_unplugged)
  note unplugged =
    dispatch_error_runs_cleanup [OF u(1) u(2) song u(3) on(1) u(4) on(2) u(5), of 0]
  have "(0::nat) < 2048"
    and "(\<forall>i<0. \<not> raises (port ?u) (Suc (calls (port ?u)) + i))
          \<and> raises (port ?u) (Suc (calls (port ?u)) + 0)"
    by (simp_all add: u(6,7))
  with unplugged have "play_thread (+) (Suc (0 + 0)) ?u =
           Some (?u\<lparr>is_playing := False,
                   port := (port ?u)\<lparr>calls := calls (port ?u) + Suc (Suc 0),
                                     sent := sent (port ?u) @ take 0 all_notes_off\<rparr>\<rparr>,
                 Some PortError)"
    by blast
  then have run_u: "play_thread (+) (Suc 0) ?u =
     Some (\<lparr>current_midi = Some example_song, is_playing = False, is_looping = False,
            loop_start = 0, loop_end = Some 288, tempo = 1, current_position = 0,
            port = \<lparr>sent = all_notes_off, calls = 2050, raises = (\<lambda>k. 2048 \<le> k)\<rparr>\<rparr>,
           Some PortError)"
    by (simp add: playing_example_unplugged)
  from h(1,6,7) run_h run_l run_u show ?thesis by (intro conjI)
qed

subsection \<open>What \<open>stop\<close> and \<open>load_midi\<close> change\<close>

text \<open>
  C10. \<open>stop\<close> clears \<open>is_playing\<close> and leaves the tempo, the loop flag, the loop points,
  the position and the loaded file as they are, whether its sweep raises or not. A call of
  \<open>play()\<close> without a start position after it starts the thread (when a file is loaded) on a
  player whose position is the one \<open>stop\<close> was called at. (The thread then iterates the
  messages from the first one again: only the position counter is resumed.)
\<close>

theorem stop_changes_only_is_playing:
  "tempo (fst (stop p)) = tempo p
   \<and> is_looping (fst (stop p)) = is_looping p
   \<and> loop_start (fst (stop p)) = loop_start p
   \<and> loop_end (fst (stop p)) = loop_end p
   \<and> current_position (fst (stop p)) = current_position p
   \<and> current_midi (fst (stop p)) = current_midi p
   \<and> \<not> is_playing (fst (stop p))
   \<and> play (fst (stop p)) None =
       (if current_midi p = None then ((fst (stop p), False), None)
        else (((fst (stop p))\<lparr>is_playing := True\<rparr>, True), None))
   \<and> current_position (fst (fst (play (fst (stop p)) None))) = current_position p"
  by (simp add: play_def)

theorem stop_changes_only_is_playing_witness:
  "current_midi (played_example good_port) \<noteq> None
   \<and> current_position (played_example good_port) = 3 / 8
   \<and> current_position (fst (stop (played_example good_port))) = 3 / 8
   \<and> tempo (fst (stop (played_example good_port))) = 1
   \<and> snd (fst (play (fst (stop (played_example good_port))) None))
   \<and> is_playing (fst (fst (play (fst (stop (played_example good_port))) None)))
   \<and> current_position (fst (fst (play (fst (stop (played_example good_port))) None))) = 3 / 8"
  using stop_changes_only_is_playing [of "played_example good_port"]
  by (simp add: played_example_good_port)

text \<open>
  C3, as stated, fails: \<open>load_midi\<close> never assigns \<open>current_position\<close>. After the example
  has been played once the position is 0.375, and loading a file again leaves it at 0.375.
\<close>

theorem load_midi_position_not_reset:
  "snd (load_midi example_files (played_example good_port) ''song.mid'') = None
   \<and> current_position (fst (load_midi example_files (played_example good_port) ''song.mid''))
       = 3 / 8"
  by (simp add: load_midi_eq stop_never_raises example_files_def played_example_good_port)

text \<open>
  C3, amended. Every successful \<open>load_midi\<close> stops playback first and leaves the playback
  position as it was.
\<close>

theorem load_midi_keeps_position:
  assumes "snd (load_midi files p filepath) = None"
  shows "current_position (fst (load_midi files p filepath)) = current_position p
     \<and> \<not> is_playing (fst (load_midi files p filepath))"
  using assms by (auto simp: load_midi_eq split: option.splits)

theorem load_midi_keeps_position_witness:
  "snd (load_midi example_files (played_example good_port) ''song.mid'') = None
   \<and> current_position (fst (load_midi example_files (played_example good_port) ''song.mid''))
       = current_position (played_example good_port)
   \<and> \<not> is_playing (fst (load_midi example_files (played_example good_port) ''song.mid''))"
proof -
  have h: "snd (load_midi example_files (played_example good_port) ''song.mid'') = None"
    by (simp add: load_midi_ok_iff stop_never_raises example_files_def played_example_good_port)
  from load_midi_keeps_position [OF h] h show ?thesis by simp
qed

text \<open>
  C4, as stated, fails in its second half: \<open>load_midi\<close> assigns \<open>loop_end\<close> without
  looking at the value it has. After \<open>set_loop_points(1, 2)\<close>, loading the example leaves
  288 in \<open>loop_end\<close>, not 2.
\<close>

theorem load_midi_overwrites_loop_end:
  "loop_end (set_loop_points (init good_port) 1 2) = Some 2
   \<and> snd (load_midi example_files (set_loop_points (init good_port) 1 2) ''song.mid'') = None
   \<and> loop_end (fst (load_midi example_files (set_loop_points (init good_port) 1 2) ''song.mid''))
       = Some 288"
  by (simp add: load_midi_eq stop_never_raises example_files_def example_total_ticks
        set_loop_points_def init_def good_port_def)

text \<open>
  C4, amended. Every successful \<open>load_midi\<close> assigns \<open>loop_end\<close> anew, from the file alone:
  a call of \<open>set_loop_points\<close> before it changes nothing in the value \<open>loop_end\<close> has after
  the load, any two players have the same \<open>loop_end\<close> after loading the same file, and
  \<open>loop_start\<close> is kept. (Which number the load computes from the file is left open here.)
\<close>

theorem load_midi_discards_override:
  assumes "snd (load_midi files p filepath) = None"
  shows "snd (load_midi files (set_loop_points p start end') filepath) = None
     \<and> loop_end (fst (load_midi files (set_loop_points p start end') filepath))
         = loop_end (fst (load_midi files p filepath))
     \<and> loop_end (fst (load_midi files (set_loop_points p start end') filepath)) \<noteq> None
     \<and> loop_start (fst (load_midi files (set_loop_points p start end') filepath)) = start
     \<and> (\<forall>q. snd (load_midi files q filepath) = None \<longrightarrow>
           loop_end (fst (load_midi files q filepath))
             = loop_end (fst (load_midi files p filepath)))"
proof -
  have same: "snd (stop (set_loop_points p start end')) = snd (stop p)"
    by (simp add: stop_eq set_loop_points_def)
  from assms obtain mf where ok: "snd (stop p) = None" "files filepath = Some mf"
    by (auto simp: load_midi_ok_iff)
  have any: "loop_end (fst (load_midi files q filepath))
      = loop_end (fst (load_midi files p filepath))"
    if "snd (load_midi files q filepath) = None" for q
  proof -
    from that have "snd (stop q) = None" by (simp add: load_midi_ok_iff)
    with ok show ?thesis by (simp add: load_midi_eq)
  qed
  from ok same have "snd (load_midi files (set_loop_points p start end') filepath) = None"
    "loop_end (fst (load_midi files (set_loop_points p start end') filepath))
         = loop_end (fst (load_midi files p filepath))"
    "loop_end (fst (load_midi files (set_loop_points p start end') filepath)) \<noteq> None"
    by (simp_all add: load_midi_eq)
  moreover from ok same
  have "loop_start (fst (load_midi files (set_loop_points p start end') filepath)) = start"
    by (simp add: load_midi_eq) (simp add: set_loop_points_def)
  ultimately show ?thesis using any by blast
qed

theorem load_midi_discards_override_witness:
  "snd (load_midi example_files (init good_port) ''song.mid'') = None
   \<and> snd (load_midi example_files (set_loop_points (init good_port) 1 2) ''song.mid'') = None
   \<and> loop_end (fst (load_midi example_files (set_loop_points (init good_port) 1 2) ''song.mid''))
       = loop_end (fst (load_midi example_files (init good_port) ''song.mid''))
   \<and> loop_start (fst (load_midi example_files (set_loop_points (init good_port) 1 2) ''song.mid''))
       = 1
   \<and> snd (load_midi example_files (played_example good_port) ''song.mid'') = None
   \<and> loop_end (fst (load_midi example_files (played_example good_port) ''song.mid''))
       = loop_end (fst (load_midi example_files (init good_port) ''song.mid''))"
proof -
  have h: "snd (load_midi example_files (init good_port) ''song.mid'') = None"
    by (simp add: load_midi_ok_iff stop_never_raises example_files_def init_def good_port_def)
  have h': "snd (load_midi example_files (played_example good_port) ''song.mid'') = None"
    by (simp add: load_midi_ok_iff stop_never_raises example_files_def played_example_good_port)
  from load_midi_discards_override [OF h, of 1 2] h h' show ?thesis by blast
qed

text \<open>
  C9. When the file cannot be decoded, \<open>load_midi\<close> raises (its own exception when the
  \<open>stop\<close> before it went through), the player is exactly as that \<open>stop\<close> has left it, the
  file loaded before is still the current one, and \<open>play()\<close> starts the thread on it.
\<close>

theorem load_midi_failure:
  assumes "files filepath = None"
  shows "snd (load_midi files p filepath) \<noteq> None
     \<and> (snd (stop p) = None \<longrightarrow> snd (load_midi files p filepath) = Some LoadError)
     \<and> fst (load_midi files p filepath) = fst (stop p)
     \<and> current_midi (fst (load_midi files p filepath)) = current_midi p
     \<and> (\<forall>mf. current_midi p = Some mf \<longrightarrow>
          play (fst (load_midi files p filepath)) None =
            (((fst (stop p))\<lparr>is_playing := True\<rparr>, True), None))"
  using assms by (auto simp: load_midi_eq play_def split: option.splits)

theorem load_midi_failure_witness:
  "example_files ''missing.mid'' = None
   \<and> snd (stop (loaded_example good_port)) = None
   \<and> current_midi (loaded_example good_port) = Some example_song
   \<and> snd (load_midi example_files (loaded_example good_port) ''missing.mid'') = Some LoadError
   \<and> fst (load_midi example_files (loaded_example good_port) ''missing.mid'')
       = fst (stop (loaded_example good_port))
   \<and> current_midi (fst (load_midi example_files (loaded_example good_port) ''missing.mid''))
       = Some example_song
   \<and> snd (fst (play (fst (load_midi example_files (loaded_example good_port) ''missing.mid'')) None))"
proof -
  have h: "example_files ''missing.mid'' = None" by (simp add: example_files_def)
  have s: "snd (stop (loaded_example good_port)) = None"
    by (simp add: stop_never_raises loaded_example_good_port)
  have m: "current_midi (loaded_example good_port) = Some example_song"
    by (simp add: loaded_example_good_port)
  note failed =
    load_midi_failure [of example_files "''missing.mid''" "loaded_example good_port", OF h]
  from failed m
  have "play (fst (load_midi example_files (loaded_example good_port) ''missing.mid'')) None =
      (((fst (stop (loaded_example good_port)))\<lparr>is_playing := True\<rparr>, True), None)"
    by blast
  then have started:
    "snd (fst (play (fst (load_midi example_files (loaded_example good_port) ''missing.mid'')) None))"
    by simp
  from failed s have "snd (load_midi example_files (loaded_example good_port) ''missing.mid'')
      = Some LoadError"
    by blast
  moreover from failed
  have "fst (load_midi example_files (loaded_example good_port) ''missing.mid'')
      = fst (stop (loaded_example good_port))"
    by blast
  moreover from failed m
  have "current_midi (fst (load_midi example_files (loaded_example good_port) ''missing.mid''))
      = Some example_song"
    by metis
  ultimately show ?thesis using h s m started by (intro conjI)
qed

subsection \<open>Tempo\<close>

text \<open>
  C5. For every tempo input \<open>t\<close>, the tempo read after \<open>set_tempo(t)\<close> is
  \<open>max(0.25, min(2.0, t))\<close>, and it lies in the interval from 0.25 to 2.0.
\<close>

theorem set_tempo_clamps:
  "tempo (set_tempo p t) = max (1 / 4) (min 2 t)
   \<and> 1 / 4 \<le> tempo (set_tempo p t) \<and> tempo (set_tempo p t) \<le> 2"
  by (simp add: set_tempo_def)

end
